theory Spec2Isabelle
  imports Main
begin

section \<open>Python failures as values\<close>

text \<open>
  Every exception the modelled functions of \<^verbatim>\<open>chat_api.py\<close> and
  \<^verbatim>\<open>mongodb_helper.py\<close> can raise is a constructor; the string is the message, the
  missing key or the missing attribute. \<open>BackendError\<close> stands for whatever the
  text-to-speech service, the chunk framing or the agent's answer stream raises;
  \<open>GeneratorExit\<close> is what closing a generator raises at its \<^verbatim>\<open>yield\<close>.
\<close>

datatype py_error =
    RuntimeError string
  | KeyError string
  | AttributeError string
  | UnboundLocalError string
  | NotImplementedError string
  | BackendError string
  | GeneratorExit string


section \<open>Menus and cafes (mongodb\_helper.py)\<close>

text \<open>
  Modelled from the spec: the classes \<open>Menu\<close> and \<open>Cafe\<close> of
  \<^verbatim>\<open>voice_chat.data_classes.data_models\<close> are not among the sources. The records
  carry the fields the helper functions read and write. \<open>collection\<close> is a dictionary in
  the source, tested with \<^verbatim>\<open>"grp_id" in x.collection\<close> and
  \<^verbatim>\<open>"sequence_number" in x.collection\<close>, so either key may be absent.
\<close>

record Collection =
  grp_id :: "string option"
  sequence_number :: "int option"

record Menu =
  menu_id :: string
  menu_text :: string
  collection :: Collection

record Cafe =
  business_uid :: string
  menus :: "Menu list"

text \<open>
  The \<open>cafes\<close> collection of the database is the list of its documents;
  \<^verbatim>\<open>find_one\<close> returns the first document that matches, \<^verbatim>\<open>update_one\<close>
  changes the first document that matches.
\<close>

type_synonym db = "Cafe list"

text \<open>
  \<^verbatim>\<open>get_cafe(db, business_uid, addition_criteria)\<close>: the only criterion the callers
  pass is \<^verbatim>\<open>{"menus.menu_id": menu_id}\<close>. When no document matches,
  \<^verbatim>\<open>Cafe.from_dict(None)\<close> raises, the exception is caught and \<open>None\<close> is returned.
\<close>

definition get_cafe :: "db \<Rightarrow> string \<Rightarrow> string option \<Rightarrow> Cafe option" where
  "get_cafe d uid addition_criteria =
     find (\<lambda>c. business_uid c = uid \<and>
               (case addition_criteria of
                  None \<Rightarrow> True
                | Some mid \<Rightarrow> list_ex (\<lambda>m. menu_id m = mid) (menus c))) d"

text \<open>The inner \<^verbatim>\<open>robust_filter\<close> of \<^verbatim>\<open>get_menu_list\<close>.\<close>

definition robust_filter_display :: "Menu \<Rightarrow> bool" where
  "robust_filter_display x =
     (case sequence_number (collection x) of
        Some n \<Rightarrow> n = 0
      | None \<Rightarrow> True)"

text \<open>
  \<^verbatim>\<open>get_menu_list\<close>: a missing cafe makes \<^verbatim>\<open>cafe.menus\<close> raise inside the
  \<^verbatim>\<open>try\<close>, and the initial empty list is returned.
\<close>

definition get_menu_list :: "db \<Rightarrow> string \<Rightarrow> bool \<Rightarrow> Menu list" where
  "get_menu_list d uid for_display =
     (case get_cafe d uid None of
        None \<Rightarrow> []
      | Some cafe \<Rightarrow>
          if for_display then filter robust_filter_display (menus cafe) else menus cafe)"

text \<open>
  \<^verbatim>\<open>db.cafes.update_one({"business_uid": uid}, {"$set": {"menus": ms}})\<close>.
\<close>

fun update_one_menus :: "db \<Rightarrow> string \<Rightarrow> Menu list \<Rightarrow> db" where
  "update_one_menus [] uid ms = []"
| "update_one_menus (c # cs) uid ms =
     (if business_uid c = uid then c\<lparr>menus := ms\<rparr> # cs
      else c # update_one_menus cs uid ms)"

text \<open>
  The loop of \<^verbatim>\<open>update_menu_field\<close> for \<^verbatim>\<open>field = "menu_text"\<close>, the only field
  its callers pass (every menu has it, so \<^verbatim>\<open>hasattr\<close> holds): the first menu with
  the given id gets the new text and the loop breaks. The flag is \<^verbatim>\<open>updated\<close>.
\<close>

fun set_menu_text :: "Menu list \<Rightarrow> string \<Rightarrow> string \<Rightarrow> Menu list \<times> bool" where
  "set_menu_text [] mid v = ([], False)"
| "set_menu_text (m # ms) mid v =
     (if menu_id m = mid then (m\<lparr>menu_text := v\<rparr> # ms, True)
      else (case set_menu_text ms mid v of (ms', u) \<Rightarrow> (m # ms', u)))"

definition update_failed_msg :: "string \<Rightarrow> string \<Rightarrow> string" where
  "update_failed_msg mid uid =
     ''Failed to update menu '' @ mid @ '' for business '' @ uid @
     '': 'NoneType' object has no attribute 'menus'' @ [CHR 0x27]"

text \<open>
  \<^verbatim>\<open>update_menu_field\<close> returns \<^verbatim>\<open>(ok, msg)\<close> and the database as it leaves it.
  With no cafe holding the menu, \<^verbatim>\<open>cafe.menus\<close> raises on \<open>None\<close>; the
  \<^verbatim>\<open>except\<close> clause turns that into \<^verbatim>\<open>ok = False\<close>.
\<close>

definition update_menu_field ::
  "db \<Rightarrow> string \<Rightarrow> string \<Rightarrow> string \<Rightarrow> db \<times> bool \<times> string" where
  "update_menu_field d uid mid v =
     (case get_cafe d uid (Some mid) of
        None \<Rightarrow> (d, False, update_failed_msg mid uid)
      | Some cafe \<Rightarrow>
          (case set_menu_text (menus cafe) mid v of
             (ms, updated) \<Rightarrow>
               if updated then (update_one_menus d (business_uid cafe) ms, True, [])
               else (d, True, [])))"

text \<open>
  \<^verbatim>\<open>count_menus_in_collection\<close>. In the \<^verbatim>\<open>else\<close> branch the local \<^verbatim>\<open>menus\<close>
  is assigned only under \<^verbatim>\<open>len(cafe.menus) > 0\<close>, and the function returns
  \<^verbatim>\<open>len(menus)\<close>, not \<^verbatim>\<open>count\<close>.
\<close>

definition in_group :: "string \<Rightarrow> Menu \<Rightarrow> bool" where
  "in_group gid x = (grp_id (collection x) = Some gid)"

definition count_menus_in_collection :: "db \<Rightarrow> string \<Rightarrow> string \<Rightarrow> py_error + nat" where
  "count_menus_in_collection d uid gid =
     (if gid \<noteq> [] \<and> length gid \<le> 10 then Inr 0
      else
        (case get_cafe d uid None of
           None \<Rightarrow> Inl (AttributeError ''menus'')
         | Some cafe \<Rightarrow>
             if length (menus cafe) > 0
             then Inr (length (filter (in_group gid) (menus cafe)))
             else Inl (UnboundLocalError ''menus'')))"

text \<open>
  \<^verbatim>\<open>collate_text\<close>. The key function of \<^verbatim>\<open>sorted\<close> reads
  \<^verbatim>\<open>x.collection["sequence_number"]\<close> of every menu of the group, which raises
  \<open>KeyError\<close> for a menu without that key; nothing catches it. \<^verbatim>\<open>sorted\<close> is
  stable, as \<open>sort_key\<close> is. The result is the database and the tuple
  \<^verbatim>\<open>(ok, msg, count, primary_menu_id)\<close>.
\<close>

definition no_business_msg :: "string \<Rightarrow> string" where
  "no_business_msg uid = ''No business found with business_uid == '' @ uid"

definition collate_text ::
  "db \<Rightarrow> string \<Rightarrow> string \<Rightarrow> py_error + (db \<times> bool \<times> string \<times> nat \<times> string)" where
  "collate_text d uid gid =
     (let all_menus = get_menu_list d uid True in
      if length all_menus = 0 then Inr (d, False, no_business_msg uid, 0, [])
      else
        let grp = filter (in_group gid) all_menus in
        if list_ex (\<lambda>x. sequence_number (collection x) = None) grp
        then Inl (KeyError ''sequence_number'')
        else
          let sorted_menus = sort_key (\<lambda>x. the (sequence_number (collection x))) grp;
              primary_menu_id = (case sorted_menus of [] \<Rightarrow> [] | m # _ \<Rightarrow> menu_id m);
              all_text = concat (map menu_text sorted_menus);
              count = length grp
          in (case update_menu_field d uid primary_menu_id all_text of
                (d', ok, msg) \<Rightarrow>
                  if \<not> ok then Inr (d', True, msg, 0, [])
                  else Inr (d', True, msg, count, primary_menu_id)))"

text \<open>The endpoint \<^verbatim>\<open>/menus/collate_images\<close>; an exception of the helper propagates.\<close>

record CollateResponse =
  resp_status :: string
  resp_message :: string
  resp_primary_menu_id :: string

definition menus_collate_images :: "db \<Rightarrow> string \<Rightarrow> string \<Rightarrow> py_error + (db \<times> CollateResponse)" where
  "menus_collate_images d uid gid =
     (case collate_text d uid gid of
        Inl e \<Rightarrow> Inl e
      | Inr (d', ok, msg, count, primary_menu_id) \<Rightarrow>
          Inr (d', \<lparr>resp_status = (if ok then ''success'' else ''erorr''),
                    resp_message = msg,
                    resp_primary_menu_id = primary_menu_id\<rparr>))"


section \<open>Sessions and the agent registry (chat\_api.py)\<close>

text \<open>
  Modelled from the spec: the enumeration \<open>YakStatus\<close> and the class \<open>YakAgent\<close> of
  \<^verbatim>\<open>voice_chat.yak_agents\<close> are not among the sources. The spec's PlaybackStatus is
  the enumeration \<open>{IDLE, TALKING}\<close>, and its SessionState holds exactly one playback
  status, the voice identity and the agent; so the attribute the endpoints write as
  \<^verbatim>\<open>yak.agent_status\<close> and the attribute the streaming loop reads and writes as
  \<^verbatim>\<open>yak.status\<close> are the one field \<open>status\<close>. \<open>runs\<close> are the outputs of
  \<^verbatim>\<open>yak.agent.memory.runs\<close>, oldest first.
\<close>

datatype YakStatus = IDLE | TALKING

record YakAgent =
  voice_id :: string
  stream :: bool
  status :: YakStatus
  runs :: "string list"

text \<open>
  \<^verbatim>\<open>agent_registry\<close> is a dictionary from session ids to an agent or \<open>None\<close>:
  \<open>reg sid = None\<close> is an absent key, \<open>reg sid = Some None\<close> a reserved session with
  no agent yet.
\<close>

type_synonym registry = "string \<rightharpoonup> YakAgent option"

text \<open>
  Modelled from the spec: \<open>ApiUserMessage\<close>, \<open>SessionStart\<close> and \<open>StdResponse\<close> of
  \<^verbatim>\<open>voice_chat.data_classes.chat_data_classes\<close> are not among the sources; the
  records carry the fields the endpoints use.
\<close>

record ApiUserMessage =
  session_id :: string
  user_input :: string

record SessionStart =
  session_id_cfg :: string
  business_uid_cfg :: string
  menu_id_cfg :: string
  user_id_cfg :: "string option"

record StdResponse =
  ok :: bool
  msg :: string
  payload :: string

text \<open>
  The collaborators the endpoints call and the sources do not contain, taken as
  parameters: \<open>agent_stream\<close> is \<^verbatim>\<open>Stream(yak.agent).run(user_input)\<close>, the text
  fragments of the answer (read through \<^verbatim>\<open>my_gen\<close> they are their values), and
  \<open>stream_error\<close> the exception, if any, with which that lazy stream ends after these
  fragments instead of ending normally;
  \<open>agent_run\<close> is \<^verbatim>\<open>yak.run(user_input).output.to_text()\<close>;
  \<open>text_preprocessor\<close> is \<^verbatim>\<open>TTS.text_preprocessor(response, filter=None)\<close>, the
  phrases cut from the fragments; \<open>audio_chunk voice phrase\<close> is
  \<^verbatim>\<open>TTS.audio_stream_generator(phrase)\<close> of \<open>AzureTextToSpeech\<close> framed by
  \<^verbatim>\<open>MultiPartResponse(json.dumps(phrase), stream.audio_data).prepare()\<close>, and
  \<open>viseme_chunk voice phrase\<close> is \<^verbatim>\<open>TTS.audio_viseme_generator(phrase)\<close> of
  \<open>AzureTTSViseme\<close> framed with the viseme table; either raises when synthesis or
  framing fails. \<open>build_agent\<close> is the part of \<^verbatim>\<open>agent_create\<close> from the rule set
  to the \<open>YakAgent\<close> constructor.
\<close>

type_synonym chunk = string

record collaborators =
  agent_stream :: "YakAgent \<Rightarrow> string \<Rightarrow> string list"
  stream_error :: "YakAgent \<Rightarrow> string \<Rightarrow> py_error option"
  agent_run :: "YakAgent \<Rightarrow> string \<Rightarrow> string"
  text_preprocessor :: "string list \<Rightarrow> string list"
  audio_chunk :: "string \<Rightarrow> string \<Rightarrow> py_error + chunk"
  viseme_chunk :: "string \<Rightarrow> string \<Rightarrow> py_error + chunk"
  build_agent :: "SessionStart \<Rightarrow> Cafe \<Rightarrow> Menu \<Rightarrow> py_error + YakAgent"

definition no_agent_found :: string where
  "no_agent_found = ''No agent found. An agent must be created prior to starting chat.''"

text \<open>
  \<^verbatim>\<open>agent_reservation\<close>; the fresh \<^verbatim>\<open>str(uuid4())\<close> is the argument \<open>sid\<close>, which
  is also the answer.
\<close>

definition agent_reservation :: "registry \<Rightarrow> string \<Rightarrow> registry" where
  "agent_reservation reg sid = reg(sid \<mapsto> None)"

text \<open>
  \<^verbatim>\<open>agent_create\<close>. \<^verbatim>\<open>MenuHelper.get_cafe\<close> and \<^verbatim>\<open>MenuHelper.get_one_menu\<close>
  read the database; a missing menu returns the error answer at once; a given
  \<^verbatim>\<open>user_id\<close> raises \<open>NotImplementedError\<close>, a missing cafe fails on
  \<^verbatim>\<open>cafe.house_rules\<close>, and the construction may fail: the \<^verbatim>\<open>except\<close> clause
  turns each into the error answer, and the registry is written only after the
  construction succeeded. The result is the registry and the \<^verbatim>\<open>status\<close> of the answer.
\<close>

definition get_one_menu :: "db \<Rightarrow> string \<Rightarrow> string \<Rightarrow> Menu option" where
  "get_one_menu d uid mid =
     (case get_cafe d uid (Some mid) of
        None \<Rightarrow> None
      | Some cafe \<Rightarrow> find (\<lambda>m. menu_id m = mid) (menus cafe))"

definition agent_create ::
  "collaborators \<Rightarrow> db \<Rightarrow> registry \<Rightarrow> SessionStart \<Rightarrow> registry \<times> string" where
  "agent_create C d reg config =
     (case get_one_menu d (business_uid_cfg config) (menu_id_cfg config) of
        None \<Rightarrow> (reg, ''error'')
      | Some menu \<Rightarrow>
          if user_id_cfg config \<noteq> None then (reg, ''error'')
          else
            (case get_cafe d (business_uid_cfg config) None of
               None \<Rightarrow> (reg, ''error'')
             | Some cafe \<Rightarrow>
                 (case build_agent C config cafe menu of
                    Inl e \<Rightarrow> (reg, ''error'')
                  | Inr yak_agent \<Rightarrow>
                      (reg(session_id_cfg config \<mapsto> Some yak_agent), ''success''))))"

text \<open>
  \<^verbatim>\<open>chat_with_agent\<close>: the membership test, then \<^verbatim>\<open>getattr(yak, "stream")\<close>,
  which raises on \<open>None\<close>.
\<close>

datatype chat_response = StreamingText "string list" "py_error option" | Data string

definition chat_with_agent ::
  "collaborators \<Rightarrow> registry \<Rightarrow> ApiUserMessage \<Rightarrow> py_error + chat_response" where
  "chat_with_agent C reg message =
     (case reg (session_id message) of
        None \<Rightarrow> Inl (RuntimeError no_agent_found)
      | Some None \<Rightarrow> Inl (AttributeError ''stream'')
      | Some (Some yak) \<Rightarrow>
          if stream yak
          then Inr (StreamingText (agent_stream C yak (user_input message))
                                  (stream_error C yak (user_input message)))
          else Inr (Data (agent_run C yak (user_input message))))"

text \<open>
  \<^verbatim>\<open>get_agent_to_say\<close>: the membership test, then \<^verbatim>\<open>yak.voice_id\<close>. The answer
  streams the one chunk of the prompt, produced (or failing) when the stream is read.
\<close>

definition get_agent_to_say ::
  "collaborators \<Rightarrow> registry \<Rightarrow> ApiUserMessage \<Rightarrow> py_error + (py_error + chunk)" where
  "get_agent_to_say C reg message =
     (case reg (session_id message) of
        None \<Rightarrow> Inl (RuntimeError no_agent_found)
      | Some None \<Rightarrow> Inl (AttributeError ''voice_id'')
      | Some (Some yak) \<Rightarrow> Inr (viseme_chunk C (voice_id yak) (user_input message)))"

text \<open>
  \<^verbatim>\<open>get_last_response\<close> has no membership test: \<^verbatim>\<open>agent_registry[session_id]\<close>
  raises \<open>KeyError\<close> for an absent key. Inside the \<^verbatim>\<open>try\<close>, a missing agent or an
  empty list of runs (index \<open>-1\<close> of an empty list) raises, and the answer is the
  empty string.
\<close>

definition get_last_response :: "registry \<Rightarrow> string \<Rightarrow> py_error + string" where
  "get_last_response reg sid =
     (case reg sid of
        None \<Rightarrow> Inl (KeyError sid)
      | Some None \<Rightarrow> Inr []
      | Some (Some yak) \<Rightarrow> Inr (if runs yak = [] then [] else last (runs yak)))"

text \<open>
  \<^verbatim>\<open>agent_interrupt\<close>: \<^verbatim>\<open>agent_registry[session_id]\<close> without a membership test,
  then \<^verbatim>\<open>if yak: yak.agent_status = YakStatus.IDLE\<close>, and the answer
  \<^verbatim>\<open>StdResponse(True, "OK", "Interrupted")\<close>. The result is the answer and the
  registry.
\<close>

definition interrupted :: StdResponse where
  "interrupted = \<lparr>ok = True, msg = ''OK'', payload = ''Interrupted''\<rparr>"

definition agent_interrupt :: "registry \<Rightarrow> string \<Rightarrow> (py_error + StdResponse) \<times> registry" where
  "agent_interrupt reg sid =
     (case reg sid of
        None \<Rightarrow> (Inl (KeyError sid), reg)
      | Some None \<Rightarrow> (Inr interrupted, reg)
      | Some (Some yak) \<Rightarrow> (Inr interrupted, reg(sid \<mapsto> Some (yak\<lparr>status := IDLE\<rparr>))))"


section \<open>The streaming loop of talk\_with\_agent and talk\_with\_avatar\<close>

text \<open>
  Both endpoints pass the membership test, read \<^verbatim>\<open>yak.voice_id\<close> (which raises on
  \<open>None\<close>), start the agent's answer, set the status to \<open>TALKING\<close> and return the
  generator \<^verbatim>\<open>stream_generator(response)\<close> unstarted; the server reads it later,
  while other requests, \<^verbatim>\<open>agent_interrupt\<close> among them, are served. The generator is
  therefore a small-step machine. Its control points:
  \<^item> \<open>Head\<close>: about to take the next phrase from \<^verbatim>\<open>TTS.text_preprocessor\<close> and
    call the synthesis on it (also the unstarted generator);
  \<^item> \<open>InSynth p\<close>: the synthesis of phrase \<open>p\<close> is running; its end frames the
    chunk and yields it;
  \<^item> \<open>Check\<close>: the chunk has been yielded, the test
    \<^verbatim>\<open>if yak.status != YakStatus.TALKING: break\<close> comes next;
  \<^item> \<open>Done\<close>: the loop was left and \<^verbatim>\<open>yak.status = YakStatus.IDLE\<close> executed;
  \<^item> \<open>Failed e\<close>: the synthesis, the framing or the phrase iterator raised \<open>e\<close>,
    or the generator was closed; the generator has no \<^verbatim>\<open>try\<close>, so the exception
    ended it, and \<^verbatim>\<open>yak.status = YakStatus.IDLE\<close> was not executed.

  The closure variable \<^verbatim>\<open>yak\<close> is the object the registry holds for the session
  \<open>yak_sid\<close>. \<open>pending\<close> are the phrases not yet taken, \<open>emitted\<close> the chunks
  yielded so far, oldest first. \<open>upstream_error\<close> is the exception, if any, that the
  phrase iterator raises in place of its normal end when the pending phrases are used up
  (the agent's lazy answer stream broke).
\<close>

datatype gen_pc = Head | InSynth string | Check | Done | Failed py_error

record stream_state =
  agent_registry :: registry
  yak_sid :: string
  tts_voice :: string
  with_visemes :: bool
  pc :: gen_pc
  pending :: "string list"
  emitted :: "chunk list"
  upstream_error :: "py_error option"

definition talk_with_agent ::
  "collaborators \<Rightarrow> registry \<Rightarrow> ApiUserMessage \<Rightarrow> py_error + stream_state" where
  "talk_with_agent C reg message =
     (case reg (session_id message) of
        None \<Rightarrow> Inl (RuntimeError no_agent_found)
      | Some None \<Rightarrow> Inl (AttributeError ''voice_id'')
      | Some (Some yak) \<Rightarrow>
          Inr \<lparr>agent_registry = reg(session_id message \<mapsto> Some (yak\<lparr>status := TALKING\<rparr>)),
               yak_sid = session_id message,
               tts_voice = voice_id yak,
               with_visemes = False,
               pc = Head,
               pending = text_preprocessor C (agent_stream C yak (user_input message)),
               emitted = [],
               upstream_error = stream_error C yak (user_input message)\<rparr>)"

definition talk_with_avatar ::
  "collaborators \<Rightarrow> registry \<Rightarrow> ApiUserMessage \<Rightarrow> py_error + stream_state" where
  "talk_with_avatar C reg message =
     (case reg (session_id message) of
        None \<Rightarrow> Inl (RuntimeError no_agent_found)
      | Some None \<Rightarrow> Inl (AttributeError ''voice_id'')
      | Some (Some yak) \<Rightarrow>
          Inr \<lparr>agent_registry = reg(session_id message \<mapsto> Some (yak\<lparr>status := TALKING\<rparr>)),
               yak_sid = session_id message,
               tts_voice = voice_id yak,
               with_visemes = True,
               pc = Head,
               pending = text_preprocessor C (agent_stream C yak (user_input message)),
               emitted = [],
               upstream_error = stream_error C yak (user_input message)\<rparr>)"

text \<open>Reading and writing \<^verbatim>\<open>yak.status\<close> through the registry.\<close>

definition get_status :: "registry \<Rightarrow> string \<Rightarrow> YakStatus option" where
  "get_status reg s =
     (case reg s of Some (Some yak) \<Rightarrow> Some (status yak) | _ \<Rightarrow> None)"

definition set_status :: "registry \<Rightarrow> string \<Rightarrow> YakStatus \<Rightarrow> registry" where
  "set_status reg s v =
     (case reg s of Some (Some yak) \<Rightarrow> reg(s \<mapsto> Some (yak\<lparr>status := v\<rparr>)) | _ \<Rightarrow> reg)"

text \<open>Synthesis and framing of one phrase, as the endpoint's generator does it.\<close>

definition mk_chunk :: "collaborators \<Rightarrow> stream_state \<Rightarrow> string \<Rightarrow> py_error + chunk" where
  "mk_chunk C s phrase =
     (if with_visemes s then viseme_chunk C (tts_voice s) phrase
      else audio_chunk C (tts_voice s) phrase)"

text \<open>One atomic step of the generator.\<close>

definition gen_step :: "collaborators \<Rightarrow> stream_state \<Rightarrow> stream_state" where
  "gen_step C s =
     (case pc s of
        Head \<Rightarrow>
          (case pending s of
             [] \<Rightarrow>
               (case upstream_error s of
                  Some e \<Rightarrow> s\<lparr>pc := Failed e\<rparr>
                | None \<Rightarrow>
                    s\<lparr>agent_registry := set_status (agent_registry s) (yak_sid s) IDLE,
                      pc := Done\<rparr>)
           | phrase # rest \<Rightarrow> s\<lparr>pc := InSynth phrase, pending := rest\<rparr>)
      | InSynth phrase \<Rightarrow>
          (case mk_chunk C s phrase of
             Inl e \<Rightarrow> s\<lparr>pc := Failed e\<rparr>
           | Inr c \<Rightarrow> s\<lparr>pc := Check, emitted := emitted s @ [c]\<rparr>)
      | Check \<Rightarrow>
          if get_status (agent_registry s) (yak_sid s) \<noteq> Some TALKING
          then s\<lparr>agent_registry := set_status (agent_registry s) (yak_sid s) IDLE,
                  pc := Done\<rparr>
          else s\<lparr>pc := Head\<rparr>
      | Done \<Rightarrow> s
      | Failed e \<Rightarrow> s)"

text \<open>
  What happens while a stream is open: the generator advances by one step, or a request
  to \<^verbatim>\<open>/agent/interrupt/{session_id}\<close> is served (for any session id; its answer goes
  to its own caller, its effect is on the registry).
\<close>

datatype event = Gen | Interrupt string

fun step :: "collaborators \<Rightarrow> event \<Rightarrow> stream_state \<Rightarrow> stream_state" where
  "step C Gen s = gen_step C s"
| "step C (Interrupt i) s = s\<lparr>agent_registry := snd (agent_interrupt (agent_registry s) i)\<rparr>"

fun run :: "collaborators \<Rightarrow> event list \<Rightarrow> stream_state \<Rightarrow> stream_state" where
  "run C [] s = s"
| "run C (e # es) s = run C es (step C e s)"

text \<open>
  The server may also close the generator (the client went away). A generator suspended
  at its \<^verbatim>\<open>yield\<close> gets \<open>GeneratorExit\<close> raised there, which nothing catches;
  a generator not yet started (at \<open>Head\<close> with nothing emitted) is ended without
  running; at the other control points the generator is running and cannot be closed.
  In neither case is \<^verbatim>\<open>yak.status = YakStatus.IDLE\<close> executed.
\<close>

definition close_gen :: "stream_state \<Rightarrow> stream_state" where
  "close_gen s =
     (if pc s = Check \<or> (pc s = Head \<and> emitted s = [])
      then s\<lparr>pc := Failed (GeneratorExit ''closed'')\<rparr>
      else s)"

datatype server_event = Ev event | Close

fun serve_step :: "collaborators \<Rightarrow> server_event \<Rightarrow> stream_state \<Rightarrow> stream_state" where
  "serve_step C (Ev e) s = step C e s"
| "serve_step C Close s = close_gen s"

fun serve :: "collaborators \<Rightarrow> server_event list \<Rightarrow> stream_state \<Rightarrow> stream_state" where
  "serve C [] s = s"
| "serve C (e # es) s = serve C es (serve_step C e s)"

text \<open>The number of generator steps in a schedule.\<close>

definition gen_steps :: "event list \<Rightarrow> nat" where
  "gen_steps es = length (filter (\<lambda>e. e = Gen) es)"

text \<open>The phrases the generator has still to synthesize: the one in flight and the pending ones.\<close>

fun todo :: "stream_state \<Rightarrow> string list" where
  "todo s = (case pc s of InSynth p \<Rightarrow> p # pending s | Head \<Rightarrow> pending s
             | Check \<Rightarrow> pending s | _ \<Rightarrow> [])"


text \<open>
  An upper bound on the generator steps a stream still needs when no synthesis fails:
  three for each phrase (take it, synthesize and yield, test the status) and one to find
  the phrases exhausted.
\<close>

fun steps_left :: "stream_state \<Rightarrow> nat" where
  "steps_left s = (case pc s of Head \<Rightarrow> 3 * length (pending s) + 1
                   | InSynth p \<Rightarrow> 3 * length (pending s) + 3
                   | Check \<Rightarrow> 3 * length (pending s) + 2
                   | _ \<Rightarrow> 0)"

text \<open>
  How many more chunks a generator can yield before it next tests the status: one when
  it is about to take a phrase or is synthesizing one, none when the test comes next or
  the generator has ended.
\<close>

fun budget :: "gen_pc \<Rightarrow> nat" where
  "budget Head = 1"
| "budget (InSynth p) = 1"
| "budget Check = 0"
| "budget Done = 0"
| "budget (Failed e) = 0"

text \<open>
  The generator steps after which a stream whose \<open>n\<close> next phrases synthesize and whose
  phrase after them fails has certainly raised, counted from each control point.
\<close>

fun need :: "gen_pc \<Rightarrow> nat \<Rightarrow> nat" where
  "need Head n = 3 * n + 2"
| "need (InSynth p) n = 3 * n + 1"
| "need Check n = 3 * n + 3"
| "need Done n = 0"
| "need (Failed e) n = 0"

declare todo.simps [simp del] steps_left.simps [simp del]


section \<open>Concrete sessions and databases\<close>

text \<open>
  Collaborators for evaluating the model: the agent answers with the given phrases,
  whatever the prompt; the synthesis fails on the phrase \<open>boom\<close> and on no other.
\<close>

definition demo_synth :: "string \<Rightarrow> string \<Rightarrow> py_error + chunk" where
  "demo_synth voice phrase =
     (if phrase = ''boom'' then Inl (BackendError ''synthesis failed'')
      else Inr (voice @ '':'' @ phrase))"

definition demo_agent :: YakAgent where
  "demo_agent = \<lparr>voice_id = ''en'', stream = True, status = IDLE, runs = []\<rparr>"

definition demo_collab :: "string list \<Rightarrow> collaborators" where
  "demo_collab ps =
     \<lparr>agent_stream = (\<lambda>yak inp. ps),
      stream_error = (\<lambda>yak inp. None),
      agent_run = (\<lambda>yak inp. concat ps),
      text_preprocessor = (\<lambda>fs. fs),
      audio_chunk = demo_synth,
      viseme_chunk = demo_synth,
      build_agent = (\<lambda>cfg cafe menu. Inr demo_agent)\<rparr>"

definition demo_registry :: registry where
  "demo_registry = [''s1'' \<mapsto> Some demo_agent, ''s2'' \<mapsto> None]"

definition demo_message :: ApiUserMessage where
  "demo_message = \<lparr>session_id = ''s1'', user_input = ''hello''\<rparr>"

definition demo_stream :: "string list \<Rightarrow> stream_state" where
  "demo_stream ps =
     \<lparr>agent_registry = demo_registry(''s1'' \<mapsto> Some (demo_agent\<lparr>status := TALKING\<rparr>)),
      yak_sid = ''s1'', tts_voice = ''en'', with_visemes = False, pc = Head,
      pending = ps, emitted = [], upstream_error = None\<rparr>"

definition demo_menu :: "string \<Rightarrow> string option \<Rightarrow> int option \<Rightarrow> Menu" where
  "demo_menu mid g n =
     \<lparr>menu_id = mid, menu_text = ''text of '' @ mid,
      collection = \<lparr>grp_id = g, sequence_number = n\<rparr>\<rparr>"

definition demo_db :: db where
  "demo_db =
     [\<lparr>business_uid = ''cafe1'',
       menus = [demo_menu ''m1'' (Some ''group-0001-long'') (Some 0),
                demo_menu ''m2'' None None]\<rparr>,
      \<lparr>business_uid = ''cafe2'', menus = []\<rparr>,
      \<lparr>business_uid = ''cafe3'',
       menus = [demo_menu ''m3'' (Some ''group-0003-long'') None]\<rparr>]"


section \<open>Facts about the model\<close>

subsection \<open>The generator and its schedule\<close>

lemma todo_simps:
  "pc s = Head \<Longrightarrow> todo s = pending s"
  "pc s = InSynth p \<Longrightarrow> todo s = p # pending s"
  "pc s = Check \<Longrightarrow> todo s = pending s"
  "pc s = Done \<Longrightarrow> todo s = []"
  "pc s = Failed e \<Longrightarrow> todo s = []"
  by (simp_all add: todo.simps)

lemma run_append: "run C (xs @ ys) s = run C ys (run C xs s)"
  by (induction xs arbitrary: s) simp_all

lemma gen_step_fixed [simp]:
  "yak_sid (gen_step C s) = yak_sid s"
  "tts_voice (gen_step C s) = tts_voice s"
  "with_visemes (gen_step C s) = with_visemes s"
  "upstream_error (gen_step C s) = upstream_error s"
  by (simp_all add: gen_step_def split: gen_pc.splits list.splits sum.splits option.splits)

lemma step_fixed [simp]:
  "yak_sid (step C e s) = yak_sid s"
  "tts_voice (step C e s) = tts_voice s"
  "with_visemes (step C e s) = with_visemes s"
  "upstream_error (step C e s) = upstream_error s"
  by (cases e; simp)+

lemma mk_chunk_gen_step [simp]: "mk_chunk C (gen_step C s) = mk_chunk C s"
  by (rule ext) (simp add: mk_chunk_def)

lemma mk_chunk_step [simp]: "mk_chunk C (step C e s) = mk_chunk C s"
  by (rule ext) (simp add: mk_chunk_def)

lemma run_fixed [simp]:
  "yak_sid (run C es s) = yak_sid s"
  by (induction es arbitrary: s) simp_all

lemma mk_chunk_run [simp]: "mk_chunk C (run C es s) = mk_chunk C s"
  by (induction es arbitrary: s) simp_all

lemma get_status_set_status:
  "get_status (set_status reg i v) j =
     (if j = i \<and> get_status reg i \<noteq> None then Some v else get_status reg j)"
  by (auto simp: get_status_def set_status_def split: option.splits)

lemma get_status_interrupt:
  "get_status (snd (agent_interrupt reg i)) j =
     (if j = i \<and> get_status reg i \<noteq> None then Some IDLE else get_status reg j)"
  by (auto simp: get_status_def agent_interrupt_def split: option.splits)

lemma step_idle:
  "get_status (agent_registry s) (yak_sid s) = Some IDLE \<Longrightarrow>
   get_status (agent_registry (step C e s)) (yak_sid s) = Some IDLE"
  by (cases e)
     (auto simp: gen_step_def get_status_set_status get_status_interrupt
           split: gen_pc.splits list.splits sum.splits option.splits)

lemma step_exists:
  "get_status (agent_registry s) (yak_sid s) \<noteq> None \<Longrightarrow>
   get_status (agent_registry (step C e s)) (yak_sid s) \<noteq> None"
  by (cases e)
     (auto simp: gen_step_def get_status_set_status get_status_interrupt
           split: gen_pc.splits list.splits sum.splits option.splits)

lemma run_exists:
  "get_status (agent_registry s) (yak_sid s) \<noteq> None \<Longrightarrow>
   get_status (agent_registry (run C es s)) (yak_sid s) \<noteq> None"
proof (induction es arbitrary: s)
  case Nil then show ?case by simp
next
  case (Cons e es)
  from step_exists[OF Cons.prems] Cons.IH[of "step C e s"] show ?case by simp
qed


lemma idle_emits_at_most_one:
  "get_status (agent_registry s) (yak_sid s) = Some IDLE \<Longrightarrow>
   \<exists>cs. emitted (run C es s) = emitted s @ cs \<and> length cs \<le> budget (pc s)"
proof (induction es arbitrary: s)
  case Nil then show ?case by simp
next
  case (Cons e es)
  let ?s' = "step C e s"
  have idle': "get_status (agent_registry ?s') (yak_sid ?s') = Some IDLE"
    using step_idle[OF Cons.prems] by simp
  from Cons.IH[OF idle'] obtain cs where
    cs: "emitted (run C es ?s') = emitted ?s' @ cs" "length cs \<le> budget (pc ?s')" by blast
  show ?case
  proof (cases e)
    case (Interrupt i)
    with cs show ?thesis by simp
  next
    case Gen
    show ?thesis
    proof (cases "pc s")
      case Head
      with Gen cs show ?thesis
        by (cases "pending s") (auto simp: gen_step_def split: option.splits)
    next
      case (InSynth p)
      with Gen cs show ?thesis
        by (cases "mk_chunk C s p") (auto simp: gen_step_def)
    next
      case Check
      with Gen cs Cons.prems show ?thesis by (auto simp: gen_step_def)
    next
      case Done
      with Gen cs show ?thesis by (auto simp: gen_step_def)
    next
      case (Failed x)
      with Gen cs show ?thesis by (auto simp: gen_step_def)
    qed
  qed
qed

lemma todo_emitted_prefix:
  "\<exists>k \<le> length (todo s).
     map Inr (emitted (run C es s)) = map Inr (emitted s) @ map (mk_chunk C s) (take k (todo s))"
proof (induction es arbitrary: s)
  case Nil
  show ?case by (rule exI[of _ 0]) simp
next
  case (Cons e es)
  let ?s' = "step C e s"
  from Cons.IH[of ?s'] obtain k where
    k: "k \<le> length (todo ?s')"
       "map Inr (emitted (run C es ?s')) = map Inr (emitted ?s') @ map (mk_chunk C s) (take k (todo ?s'))"
    by auto
  show ?case
  proof (cases e)
    case (Interrupt i)
    with k show ?thesis by (cases "pc s") (auto simp: todo.simps)
  next
    case Gen
    show ?thesis
    proof (cases "pc s")
      case Head
      with Gen k show ?thesis
        by (cases "pending s") (auto simp: gen_step_def todo.simps split: option.splits)
    next
      case (InSynth p)
      show ?thesis
      proof (cases "mk_chunk C s p")
        case (Inl err)
        with InSynth Gen k show ?thesis by (auto simp: gen_step_def todo.simps intro: exI[of _ 0])
      next
        case (Inr c)
        with InSynth Gen k show ?thesis
          by (intro exI[of _ "Suc k"]) (auto simp: gen_step_def todo.simps)
      qed
    next
      case Check
      with Gen k show ?thesis by (auto simp: gen_step_def todo.simps split: if_splits intro: exI[of _ 0])
    next
      case Done
      with Gen k show ?thesis by (auto simp: gen_step_def todo.simps)
    next
      case (Failed x)
      with Gen k show ?thesis by (auto simp: gen_step_def todo.simps)
    qed
  qed
qed

lemma mk_chunk_upd [simp]:
  "mk_chunk C (s\<lparr>agent_registry := r\<rparr>) = mk_chunk C s"
  "mk_chunk C (s\<lparr>pc := x\<rparr>) = mk_chunk C s"
  "mk_chunk C (s\<lparr>pending := ps\<rparr>) = mk_chunk C s"
  "mk_chunk C (s\<lparr>emitted := cs\<rparr>) = mk_chunk C s"
  by (rule ext, simp add: mk_chunk_def)+

lemma step_done_idle:
  assumes "get_status (agent_registry s) (yak_sid s) \<noteq> None"
    and "pc s = Done \<longrightarrow> get_status (agent_registry s) (yak_sid s) = Some IDLE"
  shows "pc (step C e s) = Done \<longrightarrow>
         get_status (agent_registry (step C e s)) (yak_sid s) = Some IDLE"
  using assms
  by (cases e)
     (auto simp: gen_step_def get_status_set_status get_status_interrupt
           split: gen_pc.splits list.splits sum.splits option.splits if_splits)

lemma run_done_idle:
  assumes "get_status (agent_registry s) (yak_sid s) \<noteq> None"
    and "pc s = Done \<longrightarrow> get_status (agent_registry s) (yak_sid s) = Some IDLE"
  shows "pc (run C es s) = Done \<longrightarrow>
         get_status (agent_registry (run C es s)) (yak_sid s) = Some IDLE"
  using assms
proof (induction es arbitrary: s)
  case Nil then show ?case by simp
next
  case (Cons e es)
  have "get_status (agent_registry (step C e s)) (yak_sid (step C e s)) \<noteq> None"
    using step_exists[OF Cons.prems(1)] by simp
  moreover have "pc (step C e s) = Done \<longrightarrow>
      get_status (agent_registry (step C e s)) (yak_sid (step C e s)) = Some IDLE"
    using step_done_idle[OF Cons.prems] by simp
  ultimately show ?case using Cons.IH[of "step C e s"] by simp
qed

lemma gen_step_progress:
  assumes "\<forall>p\<in>set (todo s). \<exists>c. mk_chunk C s p = Inr c"
  shows "steps_left (gen_step C s) \<le> steps_left s - 1
         \<and> set (todo (gen_step C s)) \<subseteq> set (todo s)"
  using assms
  by (cases "pc s")
     (auto simp: gen_step_def todo.simps steps_left.simps split: list.splits sum.splits option.splits)

lemma run_reaches_done:
  assumes "\<forall>p\<in>set (todo s). \<exists>c. mk_chunk C s p = Inr c"
    and "steps_left s \<le> gen_steps es"
    and "\<forall>e. pc s \<noteq> Failed e"
    and "upstream_error s = None"
  shows "pc (run C es s) = Done"
  using assms
proof (induction es arbitrary: s)
  case Nil
  then show ?case by (cases "pc s") (auto simp: gen_steps_def steps_left.simps)
next
  case (Cons e es)
  show ?case
  proof (cases e)
    case (Interrupt i)
    have "todo (step C e s) = todo s" "steps_left (step C e s) = steps_left s"
         "pc (step C e s) = pc s"
      using Interrupt by (cases "pc s"; simp add: todo.simps steps_left.simps)+
    moreover have "gen_steps (e # es) = gen_steps es" using Interrupt by (simp add: gen_steps_def)
    ultimately show ?thesis using Cons.IH[of "step C e s"] Cons.prems by simp
  next
    case Gen
    from gen_step_progress[OF Cons.prems(1)]
    have a: "steps_left (gen_step C s) \<le> steps_left s - 1"
      and b: "set (todo (gen_step C s)) \<subseteq> set (todo s)" by auto
    have g: "gen_steps (e # es) = Suc (gen_steps es)" using Gen by (simp add: gen_steps_def)
    have 1: "\<forall>p\<in>set (todo (step C e s)). \<exists>c. mk_chunk C (step C e s) p = Inr c"
      using b Cons.prems(1) Gen by auto
    have 2: "steps_left (step C e s) \<le> gen_steps es"
      using a g Cons.prems(2) Gen by simp
    have 3: "\<forall>x. pc (step C e s) \<noteq> Failed x"
      using Gen Cons.prems(1,3,4)
      by (cases "pc s") (auto simp: gen_step_def todo.simps split: list.splits sum.splits option.splits)
    have 4: "upstream_error (step C e s) = None" using Cons.prems(4) by simp
    from Cons.IH[OF 1 2 3 4] show ?thesis by simp
  qed
qed

lemma talk_starts:
  assumes "talk_with_agent C reg message = Inr s \<or> talk_with_avatar C reg message = Inr s"
  shows "pc s = Head" "emitted s = []" "yak_sid s = session_id message"
    "get_status (agent_registry s) (session_id message) = Some TALKING"
    "\<exists>yak. reg (session_id message) = Some (Some yak) \<and>
           pending s = text_preprocessor C (agent_stream C yak (user_input message))"
  using assms
  by (auto simp: talk_with_agent_def talk_with_avatar_def get_status_def
           split: option.splits)

lemma failed_absorbing:
  "pc s = Failed e \<Longrightarrow> pc (run C es s) = Failed e \<and> emitted (run C es s) = emitted s"
proof (induction es arbitrary: s)
  case Nil then show ?case by simp
next
  case (Cons a es)
  have "pc (step C a s) = Failed e \<and> emitted (step C a s) = emitted s"
    using Cons.prems by (cases a) (simp_all add: gen_step_def)
  with Cons.IH[of "step C a s"] show ?case by simp
qed

lemma run_reaches_failed:
  assumes "todo s = good @ bad # rest"
    and "\<forall>p\<in>set good. \<exists>c. mk_chunk C s p = Inr c"
    and "mk_chunk C s bad = Inl e"
    and "get_status (agent_registry s) (yak_sid s) = Some TALKING"
    and "Interrupt (yak_sid s) \<notin> set es"
    and "need (pc s) (length good) \<le> gen_steps es"
  shows "pc (run C es s) = Failed e \<and>
         map Inr (emitted (run C es s)) = map Inr (emitted s) @ map (mk_chunk C s) good"
  using assms
proof (induction es arbitrary: s good)
  case Nil
  then show ?case by (cases "pc s") (auto simp: gen_steps_def todo.simps)
next
  case (Cons a es)
  show ?case
  proof (cases a)
    case (Interrupt i)
    with Cons.prems(5) have ne: "i \<noteq> yak_sid s" by auto
    let ?s' = "step C a s"
    have 1: "todo ?s' = good @ bad # rest"
      using Cons.prems(1) Interrupt by (cases "pc s"; simp add: todo.simps)
    have 4: "get_status (agent_registry ?s') (yak_sid ?s') = Some TALKING"
      using Cons.prems(4) Interrupt ne by (simp add: get_status_interrupt)
    have 6: "need (pc ?s') (length good) \<le> gen_steps es"
      using Cons.prems(6) Interrupt by (simp add: gen_steps_def)
    from Cons.IH[of ?s' good, OF 1 _ _ 4 _ 6] Cons.prems(2,3,5) Interrupt
    show ?thesis by simp
  next
    case Gen
    have g: "gen_steps (a # es) = Suc (gen_steps es)" using Gen by (simp add: gen_steps_def)
    show ?thesis
    proof (cases "pc s")
      case Head
      with Cons.prems(1) have pend: "pending s = good @ bad # rest" by (simp add: todo.simps)
      let ?s' = "gen_step C s"
      obtain p where s': "?s' = s\<lparr>pc := InSynth p, pending := tl (pending s)\<rparr>"
          and p: "p = hd (pending s)"
        using pend by (cases good) (auto simp: gen_step_def Head)
      have 1: "todo ?s' = good @ bad # rest"
        using pend s' p by (cases good) (auto simp: todo.simps)
      have 4: "get_status (agent_registry ?s') (yak_sid ?s') = Some TALKING"
        using Cons.prems(4) s' by simp
      have 6: "need (pc ?s') (length good) \<le> gen_steps es"
        using Cons.prems(6) g Head s' by simp
      from Cons.IH[of ?s' good, OF 1 _ _ 4 _ 6] Cons.prems(2,3,5) Gen s'
      show ?thesis by simp
    next
      case (InSynth p)
      with Cons.prems(1) have td: "p # pending s = good @ bad # rest" by (simp add: todo.simps)
      show ?thesis
      proof (cases good)
        case Nil
        with td have "p = bad" by simp
        then have "pc (gen_step C s) = Failed e" "emitted (gen_step C s) = emitted s"
          using InSynth Cons.prems(3) by (simp_all add: gen_step_def)
        with failed_absorbing[of "gen_step C s" e C es] Gen Nil show ?thesis by simp
      next
        case (Cons g' gs)
        with td have pg: "p = g'" and pend: "pending s = gs @ bad # rest" by simp_all
        from Cons.prems(2) Cons pg obtain c where c: "mk_chunk C s p = Inr c" by auto
        let ?s' = "gen_step C s"
        have s': "?s' = s\<lparr>pc := Check, emitted := emitted s @ [c]\<rparr>"
          using InSynth c by (simp add: gen_step_def)
        have 1: "todo ?s' = gs @ bad # rest" using s' pend by (simp add: todo.simps)
        have 2: "\<forall>p\<in>set gs. \<exists>c. mk_chunk C ?s' p = Inr c"
          using Cons.prems(2) Cons by simp
        have 3: "mk_chunk C ?s' bad = Inl e" using Cons.prems(3) by simp
        have 4: "get_status (agent_registry ?s') (yak_sid ?s') = Some TALKING"
          using Cons.prems(4) s' by simp
        have 5: "Interrupt (yak_sid ?s') \<notin> set es" using Cons.prems(5) by simp
        have 6: "need (pc ?s') (length gs) \<le> gen_steps es"
          using Cons.prems(6) g InSynth s' Cons by simp
        from Cons.IH[of ?s' gs, OF 1 2 3 4 5 6] Gen s' c Cons pg
        show ?thesis by simp
      qed
    next
      case Check
      with Cons.prems(1) have pend: "pending s = good @ bad # rest" by (simp add: todo.simps)
      let ?s' = "gen_step C s"
      have s': "?s' = s\<lparr>pc := Head\<rparr>"
        using Check Cons.prems(4) by (simp add: gen_step_def)
      have 1: "todo ?s' = good @ bad # rest" using s' pend by (simp add: todo.simps)
      have 4: "get_status (agent_registry ?s') (yak_sid ?s') = Some TALKING"
        using Cons.prems(4) s' by simp
      have 6: "need (pc ?s') (length good) \<le> gen_steps es"
        using Cons.prems(6) g Check s' by simp
      from Cons.IH[of ?s' good, OF 1 _ _ 4 _ 6] Cons.prems(2,3,5) Gen s'
      show ?thesis by simp
    next
      case Done
      with Cons.prems(1) show ?thesis by (simp add: todo.simps)
    next
      case (Failed x)
      with Cons.prems(1) show ?thesis by (simp add: todo.simps)
    qed
  qed
qed

lemma emitted_bounded_by_failure:
  assumes "todo s = good @ bad # rest"
    and "mk_chunk C s bad = Inl e"
  shows "\<exists>k \<le> length good.
           map Inr (emitted (run C es s)) = map Inr (emitted s) @ map (mk_chunk C s) (take k good)"
proof -
  from todo_emitted_prefix[of s C es] obtain k where
    k: "k \<le> length (todo s)"
       "map Inr (emitted (run C es s))
          = map Inr (emitted s) @ map (mk_chunk C s) (take k (todo s))" by blast
  have "k \<le> length good"
  proof (rule ccontr)
    assume "\<not> k \<le> length good"
    then obtain m where "k = length good + Suc m"
      using less_imp_Suc_add[of "length good" k] by auto
    then have "bad \<in> set (take k (todo s))"
      using assms(1) by simp
    then have "Inl e \<in> set (map (mk_chunk C s) (take k (todo s)))"
      using assms(2) by force
    then have "Inl e \<in> set (map Inr (emitted (run C es s)) :: (py_error + chunk) list)"
      using k(2) by simp
    then show False by auto
  qed
  with k(2) assms(1) show ?thesis by (intro exI[of _ k]) simp
qed

subsection \<open>The server's schedule, with the closing of the generator\<close>

lemma serve_map_Ev: "serve C (map Ev es) s = run C es s"
  by (induction es arbitrary: s) simp_all

lemma serve_step_fixed [simp]: "yak_sid (serve_step C e s) = yak_sid s"
  by (cases e) (simp_all add: close_gen_def)

lemma serve_fixed [simp]: "yak_sid (serve C es s) = yak_sid s"
  by (induction es arbitrary: s) simp_all

lemma serve_step_exists:
  "get_status (agent_registry s) (yak_sid s) \<noteq> None \<Longrightarrow>
   get_status (agent_registry (serve_step C e s)) (yak_sid s) \<noteq> None"
  using step_exists[of s] by (cases e) (auto simp: close_gen_def)

lemma serve_step_done_idle:
  assumes "get_status (agent_registry s) (yak_sid s) \<noteq> None"
    and "pc s = Done \<longrightarrow> get_status (agent_registry s) (yak_sid s) = Some IDLE"
  shows "pc (serve_step C e s) = Done \<longrightarrow>
         get_status (agent_registry (serve_step C e s)) (yak_sid s) = Some IDLE"
  using step_done_idle[OF assms] assms(2) by (cases e) (auto simp: close_gen_def)

lemma serve_done_idle:
  assumes "get_status (agent_registry s) (yak_sid s) \<noteq> None"
    and "pc s = Done \<longrightarrow> get_status (agent_registry s) (yak_sid s) = Some IDLE"
  shows "pc (serve C es s) = Done \<longrightarrow>
         get_status (agent_registry (serve C es s)) (yak_sid s) = Some IDLE"
  using assms
proof (induction es arbitrary: s)
  case Nil then show ?case by simp
next
  case (Cons e es)
  have "get_status (agent_registry (serve_step C e s)) (yak_sid (serve_step C e s)) \<noteq> None"
    using serve_step_exists[OF Cons.prems(1)] by simp
  moreover have "pc (serve_step C e s) = Done \<longrightarrow>
      get_status (agent_registry (serve_step C e s)) (yak_sid (serve_step C e s)) = Some IDLE"
    using serve_step_done_idle[OF Cons.prems] by simp
  ultimately show ?case using Cons.IH[of "serve_step C e s"] by simp
qed

lemma serve_step_done_stays: "pc s = Done \<Longrightarrow> pc (serve_step C e s) = Done"
proof (cases e)
  case (Ev x)
  assume "pc s = Done"
  then show ?thesis using Ev by (cases x) (simp_all add: gen_step_def)
next
  case Close
  assume "pc s = Done"
  then show ?thesis using Close by (simp add: close_gen_def)
qed

lemma serve_done_stays: "pc s = Done \<Longrightarrow> pc (serve C es s) = Done"
  by (induction es arbitrary: s) (simp_all add: serve_step_done_stays)

lemma serve_step_writes_only_at_exit:
  assumes "e \<noteq> Ev (Interrupt (yak_sid s))"
    and "pc (serve_step C e s) \<noteq> Done"
  shows "get_status (agent_registry (serve_step C e s)) (yak_sid s)
           = get_status (agent_registry s) (yak_sid s)"
proof (cases e)
  case Close
  then show ?thesis by (simp add: close_gen_def)
next
  case (Ev x)
  show ?thesis
  proof (cases x)
    case (Interrupt i)
    with Ev assms(1) have "i \<noteq> yak_sid s" by auto
    with Ev Interrupt show ?thesis by (simp add: get_status_interrupt)
  next
    case Gen
    with Ev assms(2) show ?thesis
      by (cases "pc s")
         (auto simp: gen_step_def split: list.splits sum.splits option.splits if_splits)
  qed
qed

lemma serve_writes_only_at_exit:
  assumes "Ev (Interrupt (yak_sid s)) \<notin> set es"
    and "pc (serve C es s) \<noteq> Done"
  shows "get_status (agent_registry (serve C es s)) (yak_sid s)
           = get_status (agent_registry s) (yak_sid s)"
  using assms
proof (induction es arbitrary: s)
  case Nil then show ?case by simp
next
  case (Cons e es)
  let ?s' = "serve_step C e s"
  have nd: "pc ?s' \<noteq> Done"
    using Cons.prems(2) serve_done_stays[of ?s' C es] by auto
  have e: "e \<noteq> Ev (Interrupt (yak_sid s))" using Cons.prems(1) by auto
  have a: "get_status (agent_registry ?s') (yak_sid s) = get_status (agent_registry s) (yak_sid s)"
    using serve_step_writes_only_at_exit[OF e nd] .
  have "get_status (agent_registry (serve C es ?s')) (yak_sid ?s')
          = get_status (agent_registry ?s') (yak_sid ?s')"
    using Cons.IH[of ?s'] Cons.prems by simp
  with a show ?case by simp
qed

subsection \<open>A stream that is left alone emits every chunk\<close>

lemma step_keeps_total:
  assumes "\<forall>p\<in>set (todo s). \<exists>c. mk_chunk C s p = Inr c"
    and "get_status (agent_registry s) (yak_sid s) = Some TALKING \<or> pc s = Done"
    and "e \<noteq> Interrupt (yak_sid s)"
  shows "map Inr (emitted (step C e s)) @ map (mk_chunk C s) (todo (step C e s))
           = map Inr (emitted s) @ map (mk_chunk C s) (todo s)"
    and "\<forall>p\<in>set (todo (step C e s)). \<exists>c. mk_chunk C s p = Inr c"
    and "get_status (agent_registry (step C e s)) (yak_sid s) = Some TALKING
           \<or> pc (step C e s) = Done"
proof -
  show "map Inr (emitted (step C e s)) @ map (mk_chunk C s) (todo (step C e s))
           = map Inr (emitted s) @ map (mk_chunk C s) (todo s)"
  proof (cases e)
    case (Interrupt i)
    then show ?thesis by (cases "pc s") (simp_all add: todo.simps)
  next
    case Gen
    with assms(1,2) show ?thesis
      by (cases "pc s")
         (auto simp: gen_step_def todo.simps get_status_set_status
               split: list.splits sum.splits option.splits)
  qed
next
  show "\<forall>p\<in>set (todo (step C e s)). \<exists>c. mk_chunk C s p = Inr c"
  proof (cases e)
    case (Interrupt i)
    with assms(1) show ?thesis by (cases "pc s") (simp_all add: todo.simps)
  next
    case Gen
    with assms(1) show ?thesis
      by (cases "pc s")
         (auto simp: gen_step_def todo.simps split: list.splits sum.splits option.splits)
  qed
next
  show "get_status (agent_registry (step C e s)) (yak_sid s) = Some TALKING
           \<or> pc (step C e s) = Done"
  proof (cases e)
    case (Interrupt i)
    with assms(3) have "i \<noteq> yak_sid s" by auto
    with Interrupt assms(2) show ?thesis by (auto simp: get_status_interrupt)
  next
    case Gen
    with assms(1,2) show ?thesis
      by (cases "pc s")
         (auto simp: gen_step_def todo.simps get_status_set_status
               split: list.splits sum.splits option.splits)
  qed
qed

lemma run_keeps_total:
  assumes "\<forall>p\<in>set (todo s). \<exists>c. mk_chunk C s p = Inr c"
    and "get_status (agent_registry s) (yak_sid s) = Some TALKING \<or> pc s = Done"
    and "Interrupt (yak_sid s) \<notin> set es"
  shows "map Inr (emitted (run C es s)) @ map (mk_chunk C s) (todo (run C es s))
           = map Inr (emitted s) @ map (mk_chunk C s) (todo s)"
  using assms
proof (induction es arbitrary: s)
  case Nil then show ?case by simp
next
  case (Cons e es)
  let ?s' = "step C e s"
  have e: "e \<noteq> Interrupt (yak_sid s)" using Cons.prems(3) by auto
  note st = step_keeps_total[OF Cons.prems(1,2) e]
  have 1: "\<forall>p\<in>set (todo ?s'). \<exists>c. mk_chunk C ?s' p = Inr c" using st(2) by simp
  have 2: "get_status (agent_registry ?s') (yak_sid ?s') = Some TALKING \<or> pc ?s' = Done"
    using st(3) by simp
  have 3: "Interrupt (yak_sid ?s') \<notin> set es" using Cons.prems(3) by simp
  from Cons.IH[OF 1 2 3] st(1) show ?case by simp
qed

lemma run_emits_all:
  assumes "pc s = Head"
    and "\<forall>p\<in>set (pending s). \<exists>c. mk_chunk C s p = Inr c"
    and "upstream_error s = None"
    and "get_status (agent_registry s) (yak_sid s) = Some TALKING"
    and "Interrupt (yak_sid s) \<notin> set es"
    and "3 * length (pending s) + 1 \<le> gen_steps es"
  shows "pc (run C es s) = Done"
    and "map Inr (emitted (run C es s)) = map Inr (emitted s) @ map (mk_chunk C s) (pending s)"
proof -
  have td: "todo s = pending s" using assms(1) by (simp add: todo.simps)
  show d: "pc (run C es s) = Done"
    using run_reaches_done[of s C es] assms(1,2,3,6) td by (simp add: steps_left.simps)
  then have "todo (run C es s) = []" by (simp add: todo.simps)
  with run_keeps_total[of s C es] assms(2,4,5) td
  show "map Inr (emitted (run C es s)) = map Inr (emitted s) @ map (mk_chunk C s) (pending s)"
    by simp
qed

lemma run_emitted_grows:
  "\<exists>cs. emitted (run C (es @ es') s) = emitted (run C es s) @ cs"
proof -
  from todo_emitted_prefix[of "run C es s" C es'] obtain k where
    "map Inr (emitted (run C es' (run C es s)))
       = map Inr (emitted (run C es s))
         @ map (mk_chunk C (run C es s)) (take k (todo (run C es s)))"
    by blast
  then obtain us vs where "emitted (run C es' (run C es s)) = us @ vs"
    and "map Inr (emitted (run C es s)) = (map Inr us :: (py_error + chunk) list)"
    unfolding map_eq_append_conv by metis
  moreover from this have "us = emitted (run C es s)"
    by (metis inj_Inr inj_map_eq_map)
  ultimately show ?thesis by (auto simp: run_append)
qed

lemmas demo_defs = demo_synth_def demo_agent_def demo_collab_def demo_registry_def
  demo_message_def demo_stream_def

lemmas gen_defs = gen_step_def mk_chunk_def get_status_def set_status_def agent_interrupt_def

lemma demo_talk:
  "talk_with_agent (demo_collab ps) demo_registry demo_message = Inr (demo_stream ps)"
  by (simp add: talk_with_agent_def demo_defs)

lemma collate_text_returns:
  assumes "get_menu_list d uid True \<noteq> []"
    and "\<not> list_ex (\<lambda>x. sequence_number (collection x) = None)
             (filter (in_group gid) (get_menu_list d uid True))"
  shows "collate_text d uid gid =
     (let grp = filter (in_group gid) (get_menu_list d uid True);
          sorted_menus = sort_key (\<lambda>x. the (sequence_number (collection x))) grp;
          primary = (case sorted_menus of [] \<Rightarrow> [] | m # _ \<Rightarrow> menu_id m);
          upd = update_menu_field d uid primary (concat (map menu_text sorted_menus))
      in Inr (fst upd, True, snd (snd upd),
              if fst (snd upd) then length grp else 0,
              if fst (snd upd) then primary else []))"
  using assms by (simp add: collate_text_def Let_def split: prod.splits)


section \<open>Interrupting a stream\<close>

text \<open>
  C1, as the code has it. The status is tested after a chunk has been yielded, not
  before a phrase is synthesized. So once \<^verbatim>\<open>agent_interrupt\<close> has set the status of
  the streaming session to \<open>IDLE\<close>, whatever the schedule before and after, at most one
  further chunk is emitted: none when the generator stands before its test or has ended,
  at most one when it is synthesizing a phrase or is about to take the next one.
\<close>

theorem interrupt_emits_at_most_one_more:
  assumes "get_status (agent_registry s) (yak_sid s) \<noteq> None"
  shows "\<exists>cs. emitted (run C (pre @ Interrupt (yak_sid s) # post) s)
               = emitted (run C pre s) @ cs
             \<and> length cs \<le> budget (pc (run C pre s))"
proof -
  let ?s1 = "run C pre s"
  let ?s2 = "step C (Interrupt (yak_sid s)) ?s1"
  have "get_status (agent_registry ?s1) (yak_sid s) \<noteq> None"
    using run_exists[OF assms] .
  then have idle: "get_status (agent_registry ?s2) (yak_sid ?s2) = Some IDLE"
    by (simp add: get_status_interrupt)
  from idle_emits_at_most_one[OF idle, of C post]
  show ?thesis by (simp add: run_append)
qed

theorem interrupt_emits_at_most_one_more_witness:
  "get_status (agent_registry (demo_stream [''a'', ''b'']))
      (yak_sid (demo_stream [''a'', ''b''])) \<noteq> None \<and>
   (\<exists>cs. emitted (run (demo_collab [''a'', ''b''])
                    ([Gen, Gen, Gen] @ Interrupt ''s1'' # [Gen, Gen, Gen])
                    (demo_stream [''a'', ''b'']))
          = emitted (run (demo_collab [''a'', ''b'']) [Gen, Gen, Gen]
                    (demo_stream [''a'', ''b''])) @ cs
        \<and> length cs \<le> budget (pc (run (demo_collab [''a'', ''b'']) [Gen, Gen, Gen]
                    (demo_stream [''a'', ''b'']))))"
proof -
  have h: "get_status (agent_registry (demo_stream [''a'', ''b'']))
             (yak_sid (demo_stream [''a'', ''b''])) \<noteq> None"
    by (simp add: demo_defs gen_defs)
  have y: "yak_sid (demo_stream [''a'', ''b'']) = ''s1''" by (simp add: demo_defs)
  show ?thesis
    using h interrupt_emits_at_most_one_more[OF h, of "demo_collab [''a'', ''b'']"
        "[Gen, Gen, Gen]" "[Gen, Gen, Gen]"]
    unfolding y by blast
qed

text \<open>
  C1 as stated fails. The stream of phrases \<open>a\<close>, \<open>b\<close> is interrupted before the
  generator has taken its first phrase: no synthesis has started, the status is \<open>IDLE\<close>,
  nothing has been emitted. The generator then synthesizes \<open>a\<close> and yields its chunk,
  and only then tests the status and stops.
\<close>

theorem interrupt_before_synthesis_still_emits:
  "pc (demo_stream [''a'', ''b'']) = Head \<and>
   emitted (run (demo_collab [''a'', ''b'']) [Interrupt ''s1''] (demo_stream [''a'', ''b''])) = [] \<and>
   get_status (agent_registry
      (run (demo_collab [''a'', ''b'']) [Interrupt ''s1''] (demo_stream [''a'', ''b'']))) ''s1''
     = Some IDLE \<and>
   emitted (run (demo_collab [''a'', ''b'']) [Interrupt ''s1'', Gen, Gen, Gen, Gen]
      (demo_stream [''a'', ''b''])) = [''en:a'']"
  by (simp add: demo_defs gen_defs)


section \<open>The status when a stream ends\<close>

text \<open>
  C2, as the code has it. For a generator not yet started on an existing session, under
  every schedule of generator steps, interrupts and closings:
  \<^item> whenever the generator has left its loop (\<open>Done\<close>: the phrases were exhausted or
    the status was found changed), the status of the session is \<open>IDLE\<close>;
  \<^item> when every phrase synthesizes and frames, the phrase iterator ends without raising
    and the server reads the stream by three generator steps for each phrase and one
    more, closing nothing, the generator does leave its loop that way;
  \<^item> as long as the generator has not left its loop that way, also when it has ended by
    an exception of the synthesis, of the framing or of the phrase iterator or by being
    closed, it has not written the status: with no interrupt of the session, the status
    is what it was.
\<close>

theorem stream_exit_resets_status:
  assumes "get_status (agent_registry s) (yak_sid s) \<noteq> None"
    and "pc s = Head"
  shows "(pc (serve C ses s) = Done \<longrightarrow>
            get_status (agent_registry (serve C ses s)) (yak_sid s) = Some IDLE)
       \<and> ((\<forall>p\<in>set (pending s). \<exists>c. mk_chunk C s p = Inr c) \<and>
          upstream_error s = None \<and>
          3 * length (pending s) + 1 \<le> gen_steps es \<longrightarrow>
            pc (serve C (map Ev es) s) = Done \<and>
            get_status (agent_registry (serve C (map Ev es) s)) (yak_sid s) = Some IDLE)
       \<and> (pc (serve C ses s) \<noteq> Done \<and> Ev (Interrupt (yak_sid s)) \<notin> set ses \<longrightarrow>
            get_status (agent_registry (serve C ses s)) (yak_sid s)
              = get_status (agent_registry s) (yak_sid s))"
proof -
  have a: "pc (serve C ses' s) = Done \<longrightarrow>
           get_status (agent_registry (serve C ses' s)) (yak_sid s) = Some IDLE" for ses'
    using serve_done_idle[OF assms(1)] assms(2) by simp
  have b: "pc (serve C (map Ev es) s) = Done"
    if "\<forall>p\<in>set (pending s). \<exists>c. mk_chunk C s p = Inr c"
      and "upstream_error s = None"
      and "3 * length (pending s) + 1 \<le> gen_steps es"
    using run_reaches_done[of s C es] assms(2) that
    by (simp add: todo.simps steps_left.simps serve_map_Ev)
  have c: "get_status (agent_registry (serve C ses s)) (yak_sid s)
              = get_status (agent_registry s) (yak_sid s)"
    if "pc (serve C ses s) \<noteq> Done" and "Ev (Interrupt (yak_sid s)) \<notin> set ses"
    using serve_writes_only_at_exit[OF that(2,1)] .
  from a[of ses] a[of "map Ev es"] b c show ?thesis by blast
qed

theorem stream_exit_resets_status_witness:
  "get_status (agent_registry (demo_stream [''a'', ''b''])) ''s1'' = Some TALKING \<and>
   pc (serve (demo_collab [''a'', ''b''])
         (map Ev [Gen, Gen, Interrupt ''s2'', Gen, Gen, Gen, Gen, Gen])
         (demo_stream [''a'', ''b''])) = Done \<and>
   get_status (agent_registry (serve (demo_collab [''a'', ''b''])
         (map Ev [Gen, Gen, Interrupt ''s2'', Gen, Gen, Gen, Gen, Gen])
         (demo_stream [''a'', ''b''])))
      ''s1'' = Some IDLE \<and>
   pc (serve (demo_collab [''a'', ''b'']) [Ev Gen, Ev Gen, Close] (demo_stream [''a'', ''b'']))
     = Failed (GeneratorExit ''closed'') \<and>
   get_status (agent_registry (serve (demo_collab [''a'', ''b'']) [Ev Gen, Ev Gen, Close]
         (demo_stream [''a'', ''b''])))
      ''s1'' = Some TALKING"
proof -
  let ?s = "demo_stream [''a'', ''b'']"
  let ?C = "demo_collab [''a'', ''b'']"
  let ?es = "[Gen, Gen, Interrupt ''s2'', Gen, Gen, Gen, Gen, Gen]"
  let ?ses = "[Ev Gen, Ev Gen, Close]"
  have h0: "get_status (agent_registry ?s) ''s1'' = Some TALKING"
    by (simp add: demo_defs gen_defs)
  have y: "yak_sid ?s = ''s1''" by (simp add: demo_defs)
  have h1: "get_status (agent_registry ?s) (yak_sid ?s) \<noteq> None" using h0 y by simp
  have h2: "pc ?s = Head" by (simp add: demo_defs)
  have h3: "\<forall>p\<in>set (pending ?s). \<exists>c. mk_chunk ?C ?s p = Inr c"
    by (simp add: demo_defs gen_defs)
  have h4: "upstream_error ?s = None" by (simp add: demo_defs)
  have h5: "3 * length (pending ?s) + 1 \<le> gen_steps ?es"
    by (simp add: demo_defs gen_steps_def)
  have h6: "pc (serve ?C ?ses ?s) = Failed (GeneratorExit ''closed'')"
    by (simp add: demo_defs gen_defs close_gen_def)
  have h7: "Ev (Interrupt (yak_sid ?s)) \<notin> set ?ses" by simp
  from stream_exit_resets_status[OF h1 h2, of ?C ?ses ?es] h3 h4 h5 h6 h7 h0 show ?thesis
    unfolding y by simp
qed

text \<open>
  C2 as stated fails on the exit by an exception. The only phrase of the stream fails
  to synthesize: the generator ends with the exception and the session stays
  \<open>TALKING\<close>, however long the schedule goes on.
\<close>

theorem synthesis_error_leaves_talking:
  "pc (run (demo_collab [''boom'']) [Gen, Gen, Gen, Gen] (demo_stream [''boom'']))
     = Failed (BackendError ''synthesis failed'') \<and>
   get_status (agent_registry
      (run (demo_collab [''boom'']) [Gen, Gen, Gen, Gen] (demo_stream [''boom''])))
      ''s1'' = Some TALKING"
  by (simp add: demo_defs gen_defs)


section \<open>A phrase that fails to synthesize\<close>

text \<open>
  C3, as the code has it. When the phrases \<open>good\<close> synthesize and the phrase \<open>bad\<close>
  after them fails, the stream never emits more than the chunks of \<open>good\<close>, in order,
  under any schedule: nothing for \<open>bad\<close> and nothing for the phrases \<open>rest\<close> after
  it. Left uninterrupted for three generator steps for each phrase of \<open>good\<close> and two
  more, the generator has ended with the exception, having emitted exactly the chunks of
  \<open>good\<close>.
\<close>

theorem synthesis_failure_ends_stream:
  assumes "pc s = Head"
    and "pending s = good @ bad # rest"
    and "\<forall>p\<in>set good. \<exists>c. mk_chunk C s p = Inr c"
    and "mk_chunk C s bad = Inl e"
  shows "(\<exists>k \<le> length good.
            map Inr (emitted (run C es s))
              = map Inr (emitted s) @ map (mk_chunk C s) (take k good))
       \<and> (get_status (agent_registry s) (yak_sid s) = Some TALKING \<and>
          Interrupt (yak_sid s) \<notin> set es \<and> 3 * length good + 2 \<le> gen_steps es
          \<longrightarrow> pc (run C es s) = Failed e \<and>
              map Inr (emitted (run C es s))
                = map Inr (emitted s) @ map (mk_chunk C s) good \<and>
              length (emitted (run C es s)) = length (emitted s) + length good)"
proof -
  have td: "todo s = good @ bad # rest" using assms(1,2) by (simp add: todo.simps)
  have a: "\<exists>k \<le> length good.
            map Inr (emitted (run C es s))
              = map Inr (emitted s) @ map (mk_chunk C s) (take k good)"
    using emitted_bounded_by_failure[OF td assms(4)] .
  have b: "pc (run C es s) = Failed e \<and>
              map Inr (emitted (run C es s))
                = map Inr (emitted s) @ map (mk_chunk C s) good \<and>
              length (emitted (run C es s)) = length (emitted s) + length good"
    if h: "get_status (agent_registry s) (yak_sid s) = Some TALKING"
          "Interrupt (yak_sid s) \<notin> set es" "3 * length good + 2 \<le> gen_steps es"
  proof -
    have n: "need (pc s) (length good) \<le> gen_steps es" using h(3) assms(1) by simp
    from run_reaches_failed[OF td assms(3,4) h(1,2) n]
    have r: "pc (run C es s) = Failed e"
      "map Inr (emitted (run C es s)) = map Inr (emitted s) @ map (mk_chunk C s) good"
      by simp_all
    from arg_cong[OF r(2), of length]
    have "length (emitted (run C es s)) = length (emitted s) + length good"
      by simp
    with r show ?thesis by simp
  qed
  from a b show ?thesis by blast
qed

theorem synthesis_failure_ends_stream_witness:
  "mk_chunk (demo_collab [''a'', ''boom'', ''c'']) (demo_stream [''a'', ''boom'', ''c'']) ''boom''
     = Inl (BackendError ''synthesis failed'') \<and>
   pc (run (demo_collab [''a'', ''boom'', ''c'']) [Gen, Gen, Interrupt ''s2'', Gen, Gen, Gen, Gen]
         (demo_stream [''a'', ''boom'', ''c''])) = Failed (BackendError ''synthesis failed'') \<and>
   length (emitted (run (demo_collab [''a'', ''boom'', ''c''])
         [Gen, Gen, Interrupt ''s2'', Gen, Gen, Gen, Gen]
         (demo_stream [''a'', ''boom'', ''c'']))) = 1"
proof -
  let ?s = "demo_stream [''a'', ''boom'', ''c'']"
  let ?C = "demo_collab [''a'', ''boom'', ''c'']"
  let ?es = "[Gen, Gen, Interrupt ''s2'', Gen, Gen, Gen, Gen]"
  have h1: "pc ?s = Head" by (simp add: demo_defs)
  have h2: "pending ?s = [''a''] @ ''boom'' # [''c'']" by (simp add: demo_defs)
  have h3: "\<forall>p\<in>set [''a'']. \<exists>c. mk_chunk ?C ?s p = Inr c" by (simp add: demo_defs gen_defs)
  have h4: "mk_chunk ?C ?s ''boom'' = Inl (BackendError ''synthesis failed'')"
    by (simp add: demo_defs gen_defs)
  have h5: "get_status (agent_registry ?s) (yak_sid ?s) = Some TALKING"
    by (simp add: demo_defs gen_defs)
  have h6: "Interrupt (yak_sid ?s) \<notin> set ?es" by (simp add: demo_defs)
  have h7: "3 * length [''a''] + 2 \<le> gen_steps ?es" by (simp add: gen_steps_def)
  have h8: "emitted ?s = []" by (simp add: demo_defs)
  from synthesis_failure_ends_stream[OF h1 h2 h3 h4, of ?es] h5 h6 h7 h8 h4
  show ?thesis by simp
qed

text \<open>
  C3 as stated fails. Of the three phrases \<open>a\<close>, \<open>boom\<close>, \<open>c\<close> only the second
  fails to synthesize; the uninterrupted stream emits the chunk of \<open>a\<close> and nothing
  else, one chunk and not two.
\<close>

theorem synthesis_failure_drops_later_phrases:
  "emitted (run (demo_collab [''a'', ''boom'', ''c''])
      [Gen, Gen, Gen, Gen, Gen, Gen, Gen, Gen, Gen, Gen, Gen, Gen]
      (demo_stream [''a'', ''boom'', ''c''])) = [''en:a''] \<and>
   length (emitted (run (demo_collab [''a'', ''boom'', ''c''])
      [Gen, Gen, Gen, Gen, Gen, Gen, Gen, Gen, Gen, Gen, Gen, Gen]
      (demo_stream [''a'', ''boom'', ''c''])))
     \<noteq> length [''a'', ''boom'', ''c''] - 1"
  by (simp add: demo_defs gen_defs)


section \<open>The order of the chunks\<close>

text \<open>
  C7. Let \<open>ps\<close> be the phrases \<^verbatim>\<open>TTS.text_preprocessor\<close> cuts from the agent's
  answer to the message, in the order it produces them, and \<open>s\<close> the stream
  \<^verbatim>\<open>talk_with_agent\<close> or \<^verbatim>\<open>talk_with_avatar\<close> returns. Under every schedule the
  chunks emitted so far are the chunks of the first \<open>k\<close> phrases of \<open>ps\<close>, for
  some \<open>k\<close>: the \<open>i\<close>-th chunk is the chunk of the \<open>i\<close>-th phrase, none is
  repeated, none comes before the chunk of an earlier phrase. Going on with the schedule
  only appends chunks. And when every phrase synthesizes, the agent's stream does not
  break and the session is not interrupted, then after three generator steps for each
  phrase and one more the emitted chunks are the chunks of all of \<open>ps\<close>, in order.
\<close>

theorem chunks_in_phrase_order:
  assumes "reg (session_id message) = Some (Some yak)"
    and "talk_with_agent C reg message = Inr s \<or> talk_with_avatar C reg message = Inr s"
  shows "(\<exists>k \<le> length (text_preprocessor C (agent_stream C yak (user_input message))).
            map Inr (emitted (run C es s))
              = map (mk_chunk C s)
                  (take k (text_preprocessor C (agent_stream C yak (user_input message)))))
       \<and> (\<exists>cs. emitted (run C (es @ es') s) = emitted (run C es s) @ cs)
       \<and> ((\<forall>p\<in>set (text_preprocessor C (agent_stream C yak (user_input message))).
              \<exists>c. mk_chunk C s p = Inr c) \<and>
          stream_error C yak (user_input message) = None \<and>
          Interrupt (session_id message) \<notin> set es \<and>
          3 * length (text_preprocessor C (agent_stream C yak (user_input message))) + 1
            \<le> gen_steps es \<longrightarrow>
            map Inr (emitted (run C es s))
              = map (mk_chunk C s)
                  (text_preprocessor C (agent_stream C yak (user_input message))))"
proof -
  let ?ps = "text_preprocessor C (agent_stream C yak (user_input message))"
  have st: "pc s = Head" "emitted s = []" "yak_sid s = session_id message"
    "get_status (agent_registry s) (session_id message) = Some TALKING"
    using talk_starts(1-4)[OF assms(2)] by simp_all
  have pend: "pending s = ?ps" and up: "upstream_error s = stream_error C yak (user_input message)"
    using assms by (auto simp: talk_with_agent_def talk_with_avatar_def)
  have a: "\<exists>k \<le> length ?ps.
            map Inr (emitted (run C es s)) = map (mk_chunk C s) (take k ?ps)"
    using todo_emitted_prefix[of s C es] st(1,2) pend by (simp add: todo.simps)
  have b: "\<exists>cs. emitted (run C (es @ es') s) = emitted (run C es s) @ cs"
    by (rule run_emitted_grows)
  have c: "map Inr (emitted (run C es s)) = map (mk_chunk C s) ?ps"
    if "\<forall>p\<in>set ?ps. \<exists>c. mk_chunk C s p = Inr c"
      and "stream_error C yak (user_input message) = None"
      and "Interrupt (session_id message) \<notin> set es"
      and "3 * length ?ps + 1 \<le> gen_steps es"
    using run_emits_all(2)[of s C es] st pend up that by simp
  from a b c show ?thesis by blast
qed

theorem chunks_in_phrase_order_witness:
  "demo_registry (session_id demo_message) = Some (Some demo_agent) \<and>
   talk_with_agent (demo_collab [''a'', ''b'']) demo_registry demo_message
     = Inr (demo_stream [''a'', ''b'']) \<and>
   text_preprocessor (demo_collab [''a'', ''b''])
     (agent_stream (demo_collab [''a'', ''b'']) demo_agent (user_input demo_message))
     = [''a'', ''b''] \<and>
   emitted (run (demo_collab [''a'', ''b'']) [Gen, Gen, Gen, Gen, Interrupt ''s2'', Gen, Gen, Gen]
              (demo_stream [''a'', ''b''])) = [''en:a'', ''en:b''] \<and>
   map Inr (emitted (run (demo_collab [''a'', ''b''])
              [Gen, Gen, Gen, Gen, Interrupt ''s2'', Gen, Gen, Gen] (demo_stream [''a'', ''b''])))
     = map (mk_chunk (demo_collab [''a'', ''b'']) (demo_stream [''a'', ''b''])) [''a'', ''b'']"
proof -
  let ?C = "demo_collab [''a'', ''b'']"
  let ?s = "demo_stream [''a'', ''b'']"
  let ?es = "[Gen, Gen, Gen, Gen, Interrupt ''s2'', Gen, Gen, Gen]"
  have h1: "demo_registry (session_id demo_message) = Some (Some demo_agent)"
    by (simp add: demo_defs)
  have h2: "talk_with_agent ?C demo_registry demo_message = Inr ?s
          \<or> talk_with_avatar ?C demo_registry demo_message = Inr ?s"
    using demo_talk by simp
  have ps: "text_preprocessor ?C (agent_stream ?C demo_agent (user_input demo_message))
              = [''a'', ''b'']"
    by (simp add: demo_defs)
  have h3: "\<forall>p\<in>set [''a'', ''b'']. \<exists>c. mk_chunk ?C ?s p = Inr c"
    by (simp add: demo_defs gen_defs)
  have h4: "stream_error ?C demo_agent (user_input demo_message) = None"
    by (simp add: demo_defs)
  have h5: "Interrupt (session_id demo_message) \<notin> set ?es" by (simp add: demo_defs)
  have h6: "3 * length [''a'', ''b''] + 1 \<le> gen_steps ?es" by (simp add: gen_steps_def)
  have ev: "emitted (run ?C ?es ?s) = [''en:a'', ''en:b'']"
    by (simp add: demo_defs gen_defs)
  from chunks_in_phrase_order[OF h1 h2, of ?es "[]"] h3 h4 h5 h6
  have "map Inr (emitted (run ?C ?es ?s)) = map (mk_chunk ?C ?s) [''a'', ''b'']"
    unfolding ps by blast
  with h1 demo_talk ps ev show ?thesis by simp
qed


section \<open>Sessions: unknown, reserved, interrupted\<close>

text \<open>
  C4. For a session id that is no key of the registry every conversational endpoint
  fails, and none works on a default or empty session: \<^verbatim>\<open>chat_with_agent\<close>,
  \<^verbatim>\<open>talk_with_agent\<close>, \<^verbatim>\<open>talk_with_avatar\<close> and \<^verbatim>\<open>get_agent_to_say\<close> raise the
  \<open>RuntimeError\<close> of their membership test, \<^verbatim>\<open>get_last_response\<close> and
  \<^verbatim>\<open>agent_interrupt\<close> the \<open>KeyError\<close> of the registry lookup, and the registry is
  left as it was.
\<close>

theorem unknown_session_is_an_error:
  assumes "reg (session_id message) = None"
  shows "chat_with_agent C reg message = Inl (RuntimeError no_agent_found) \<and>
         talk_with_agent C reg message = Inl (RuntimeError no_agent_found) \<and>
         talk_with_avatar C reg message = Inl (RuntimeError no_agent_found) \<and>
         get_agent_to_say C reg message = Inl (RuntimeError no_agent_found) \<and>
         get_last_response reg (session_id message) = Inl (KeyError (session_id message)) \<and>
         agent_interrupt reg (session_id message) = (Inl (KeyError (session_id message)), reg)"
  using assms
  by (simp add: chat_with_agent_def talk_with_agent_def talk_with_avatar_def
      get_agent_to_say_def get_last_response_def agent_interrupt_def)

theorem unknown_session_is_an_error_witness:
  "demo_registry ''s7'' = None \<and>
   chat_with_agent (demo_collab []) demo_registry \<lparr>session_id = ''s7'', user_input = ''hi''\<rparr>
     = Inl (RuntimeError no_agent_found) \<and>
   talk_with_avatar (demo_collab []) demo_registry \<lparr>session_id = ''s7'', user_input = ''hi''\<rparr>
     = Inl (RuntimeError no_agent_found) \<and>
   get_last_response demo_registry ''s7'' = Inl (KeyError ''s7'') \<and>
   fst (agent_interrupt demo_registry ''s7'') = Inl (KeyError ''s7'')"
proof -
  have h: "demo_registry (session_id \<lparr>session_id = ''s7'', user_input = ''hi''\<rparr>) = None"
    by (simp add: demo_registry_def)
  from unknown_session_is_an_error[where reg = demo_registry
      and message = "\<lparr>session_id = ''s7'', user_input = ''hi''\<rparr>" and C = "demo_collab []"] h
  show ?thesis by simp
qed

text \<open>
  C8. A reserved session maps to \<open>None\<close>, and an \<^verbatim>\<open>agent_create\<close> that does not
  succeed leaves the registry as it was. On a session that maps to \<open>None\<close> the
  membership test of \<^verbatim>\<open>chat_with_agent\<close>, \<^verbatim>\<open>talk_with_agent\<close>,
  \<^verbatim>\<open>talk_with_avatar\<close> and \<^verbatim>\<open>get_agent_to_say\<close> passes and the endpoint fails with
  an \<open>AttributeError\<close> on the missing agent; \<^verbatim>\<open>agent_interrupt\<close> answers
  \<open>Interrupted\<close> and changes nothing.
\<close>

theorem reserved_session_without_agent:
  "agent_reservation reg0 sid sid = Some None
   \<and> (snd (agent_create C d reg config) \<noteq> ''success'' \<longrightarrow> fst (agent_create C d reg config) = reg)
   \<and> (reg (session_id m) = Some None \<longrightarrow>
        chat_with_agent C reg m = Inl (AttributeError ''stream'') \<and>
        talk_with_agent C reg m = Inl (AttributeError ''voice_id'') \<and>
        talk_with_avatar C reg m = Inl (AttributeError ''voice_id'') \<and>
        get_agent_to_say C reg m = Inl (AttributeError ''voice_id'') \<and>
        agent_interrupt reg (session_id m) = (Inr interrupted, reg))"
  by (auto simp: agent_reservation_def agent_create_def chat_with_agent_def talk_with_agent_def
        talk_with_avatar_def get_agent_to_say_def agent_interrupt_def
      split: option.splits sum.splits)

theorem reserved_session_without_agent_witness:
  "snd (agent_create (demo_collab []) demo_db (agent_reservation demo_registry ''s9'')
          \<lparr>session_id_cfg = ''s9'', business_uid_cfg = ''cafe1'', menu_id_cfg = ''m9'',
           user_id_cfg = None\<rparr>) = ''error'' \<and>
   agent_reservation demo_registry ''s9'' ''s9'' = Some None \<and>
   fst (agent_create (demo_collab []) demo_db (agent_reservation demo_registry ''s9'')
          \<lparr>session_id_cfg = ''s9'', business_uid_cfg = ''cafe1'', menu_id_cfg = ''m9'',
           user_id_cfg = None\<rparr>) = agent_reservation demo_registry ''s9'' \<and>
   talk_with_avatar (demo_collab []) (agent_reservation demo_registry ''s9'')
          \<lparr>session_id = ''s9'', user_input = ''hi''\<rparr> = Inl (AttributeError ''voice_id'') \<and>
   agent_interrupt (agent_reservation demo_registry ''s9'') ''s9''
     = (Inr interrupted, agent_reservation demo_registry ''s9'')"
proof -
  let ?reg = "agent_reservation demo_registry ''s9''"
  let ?cfg = "\<lparr>session_id_cfg = ''s9'', business_uid_cfg = ''cafe1'', menu_id_cfg = ''m9'',
           user_id_cfg = None\<rparr>"
  let ?m = "\<lparr>session_id = ''s9'', user_input = ''hi''\<rparr>"
  have h1: "snd (agent_create (demo_collab []) demo_db ?reg ?cfg) = ''error''"
    by (simp add: agent_create_def get_one_menu_def get_cafe_def demo_db_def demo_menu_def)
  have h2: "?reg (session_id ?m) = Some None" by (simp add: agent_reservation_def)
  from reserved_session_without_agent[of demo_registry "''s9''" "demo_collab []" demo_db
      ?reg ?cfg ?m] h1 h2
  show ?thesis by simp
qed

text \<open>
  C6. On an existing session \<^verbatim>\<open>agent_interrupt\<close> answers \<open>Interrupted\<close>; a second
  call answers the same and leaves the registry of the first call unchanged; a session
  with an agent is \<open>IDLE\<close> afterwards, whether or not a stream had set it to
  \<open>TALKING\<close>; a session that was not \<open>TALKING\<close> is not changed at all; no other
  session is touched.
\<close>

theorem agent_interrupt_idempotent:
  assumes "reg sid \<noteq> None"
  shows "fst (agent_interrupt reg sid) = Inr interrupted \<and>
         agent_interrupt (snd (agent_interrupt reg sid)) sid
           = (Inr interrupted, snd (agent_interrupt reg sid)) \<and>
         (get_status reg sid \<noteq> None \<longrightarrow>
            get_status (snd (agent_interrupt reg sid)) sid = Some IDLE) \<and>
         (get_status reg sid \<noteq> Some TALKING \<longrightarrow> snd (agent_interrupt reg sid) = reg) \<and>
         (\<forall>j. j \<noteq> sid \<longrightarrow> snd (agent_interrupt reg sid) j = reg j)"
  using assms
  apply (auto simp: agent_interrupt_def get_status_def split: option.splits)
  subgoal for yak by (cases "status yak") (auto intro!: ext)
  done

theorem agent_interrupt_idempotent_witness:
  "agent_registry (demo_stream []) ''s1'' \<noteq> None \<and>
   get_status (agent_registry (demo_stream [])) ''s1'' = Some TALKING \<and>
   get_status (snd (agent_interrupt (agent_registry (demo_stream [])) ''s1'')) ''s1'' = Some IDLE \<and>
   agent_interrupt (snd (agent_interrupt (agent_registry (demo_stream [])) ''s1'')) ''s1''
     = (Inr interrupted, snd (agent_interrupt (agent_registry (demo_stream [])) ''s1'')) \<and>
   get_status demo_registry ''s1'' = Some IDLE \<and>
   snd (agent_interrupt demo_registry ''s1'') = demo_registry"
proof -
  have h: "agent_registry (demo_stream []) ''s1'' \<noteq> None" by (simp add: demo_defs)
  have t: "get_status (agent_registry (demo_stream [])) ''s1'' = Some TALKING"
    by (simp add: demo_defs gen_defs)
  have h': "demo_registry ''s1'' \<noteq> None" by (simp add: demo_defs)
  have i: "get_status demo_registry ''s1'' = Some IDLE" by (simp add: demo_defs gen_defs)
  from agent_interrupt_idempotent[where reg = "agent_registry (demo_stream [])" and sid = "''s1''"]
    agent_interrupt_idempotent[where reg = demo_registry and sid = "''s1''"] h h' t i
  show ?thesis by simp
qed


section \<open>The transitions of the status\<close>

text \<open>
  C5, as the code has it. The status has the two values \<open>IDLE\<close> and \<open>TALKING\<close>
  (the enumeration the source names, modelled from the spec). Of the operations that
  write the registry or an agent in it:
  \<^item> a talking endpoint that succeeds leaves its session \<open>TALKING\<close> and every other
    entry as it was;
  \<^item> a generator step changes a status only of its own session, only from \<open>TALKING\<close>
    to \<open>IDLE\<close> and only in leaving the loop; closing the generator writes nothing;
  \<^item> \<^verbatim>\<open>agent_interrupt\<close> changes a status only of the session it names and only
    from \<open>TALKING\<close> to \<open>IDLE\<close>;
  \<^item> \<^verbatim>\<open>agent_create\<close> changes the status recorded for a session only when it
    succeeds, only for the session id its caller supplied, and then by storing the newly
    built agent in place of whatever the registry held, whichever status that had;
  \<^item> \<^verbatim>\<open>agent_reservation\<close>, whose id is fresh, changes no status.

  \<^verbatim>\<open>chat_with_agent\<close>, \<^verbatim>\<open>get_agent_to_say\<close> and \<^verbatim>\<open>get_last_response\<close> assign
  neither and return no registry.
\<close>

theorem status_transitions:
  "(\<forall>v::YakStatus. v = IDLE \<or> v = TALKING)
   \<and> (talk_with_agent C reg m = Inr s \<or> talk_with_avatar C reg m = Inr s \<longrightarrow>
        get_status reg (session_id m) \<noteq> None \<and>
        get_status (agent_registry s) (session_id m) = Some TALKING \<and>
        (\<forall>j. j \<noteq> session_id m \<longrightarrow> agent_registry s j = reg j))
   \<and> (get_status (agent_registry (gen_step C t)) j \<noteq> get_status (agent_registry t) j \<longrightarrow>
        j = yak_sid t \<and> get_status (agent_registry t) j = Some TALKING \<and>
        get_status (agent_registry (gen_step C t)) j = Some IDLE \<and>
        pc (gen_step C t) = Done \<and> pc t \<noteq> Done)
   \<and> agent_registry (close_gen t) = agent_registry t
   \<and> (get_status (snd (agent_interrupt reg i)) j \<noteq> get_status reg j \<longrightarrow>
        j = i \<and> get_status reg j = Some TALKING \<and>
        get_status (snd (agent_interrupt reg i)) j = Some IDLE)
   \<and> (get_status (fst (agent_create C d reg config)) j \<noteq> get_status reg j \<longrightarrow>
        j = session_id_cfg config \<and>
        snd (agent_create C d reg config) = ''success'' \<and>
        (\<exists>cafe menu yak. build_agent C config cafe menu = Inr yak \<and>
           fst (agent_create C d reg config) j = Some (Some yak)))
   \<and> (reg sid = None \<longrightarrow>
        (\<forall>k. get_status (agent_reservation reg sid) k = get_status reg k))"
proof (intro conjI)
  show "\<forall>v::YakStatus. v = IDLE \<or> v = TALKING"
    using YakStatus.exhaust by blast
next
  show "talk_with_agent C reg m = Inr s \<or> talk_with_avatar C reg m = Inr s \<longrightarrow>
        get_status reg (session_id m) \<noteq> None \<and>
        get_status (agent_registry s) (session_id m) = Some TALKING \<and>
        (\<forall>j. j \<noteq> session_id m \<longrightarrow> agent_registry s j = reg j)"
    by (auto simp: talk_with_agent_def talk_with_avatar_def get_status_def split: option.splits)
next
  show "get_status (agent_registry (gen_step C t)) j \<noteq> get_status (agent_registry t) j \<longrightarrow>
        j = yak_sid t \<and> get_status (agent_registry t) j = Some TALKING \<and>
        get_status (agent_registry (gen_step C t)) j = Some IDLE \<and>
        pc (gen_step C t) = Done \<and> pc t \<noteq> Done"
    by (cases "pc t"; cases "get_status (agent_registry t) (yak_sid t)";
        cases "the (get_status (agent_registry t) (yak_sid t))")
       (auto simp: gen_step_def get_status_set_status
             split: list.splits sum.splits option.splits if_splits)
next
  show "agent_registry (close_gen t) = agent_registry t"
    by (simp add: close_gen_def)
next
  show "get_status (snd (agent_interrupt reg i)) j \<noteq> get_status reg j \<longrightarrow>
        j = i \<and> get_status reg j = Some TALKING \<and>
        get_status (snd (agent_interrupt reg i)) j = Some IDLE"
    by (cases "get_status reg i"; cases "the (get_status reg i)")
       (auto simp: get_status_interrupt split: if_splits)
next
  show "get_status (fst (agent_create C d reg config)) j \<noteq> get_status reg j \<longrightarrow>
        j = session_id_cfg config \<and>
        snd (agent_create C d reg config) = ''success'' \<and>
        (\<exists>cafe menu yak. build_agent C config cafe menu = Inr yak \<and>
           fst (agent_create C d reg config) j = Some (Some yak))"
    by (auto simp: agent_create_def get_status_def split: option.splits sum.splits if_splits)
next
  show "reg sid = None \<longrightarrow>
        (\<forall>k. get_status (agent_reservation reg sid) k = get_status reg k)"
    by (auto simp: agent_reservation_def get_status_def)
qed

theorem status_transitions_witness:
  "talk_with_agent (demo_collab []) demo_registry demo_message = Inr (demo_stream []) \<and>
   get_status demo_registry ''s1'' = Some IDLE \<and>
   get_status (agent_registry (demo_stream [])) ''s1'' = Some TALKING \<and>
   get_status (agent_registry (gen_step (demo_collab []) (demo_stream []))) ''s1'' = Some IDLE \<and>
   pc (gen_step (demo_collab []) (demo_stream [])) = Done \<and>
   get_status (snd (agent_interrupt (agent_registry (demo_stream [])) ''s1'')) ''s1'' = Some IDLE \<and>
   snd (agent_create (demo_collab []) demo_db (agent_registry (demo_stream []))
          \<lparr>session_id_cfg = ''s1'', business_uid_cfg = ''cafe1'', menu_id_cfg = ''m1'',
           user_id_cfg = None\<rparr>) = ''success'' \<and>
   demo_registry ''s5'' = None \<and>
   get_status (agent_reservation demo_registry ''s5'') ''s1'' = Some IDLE"
proof -
  let ?cfg = "\<lparr>session_id_cfg = ''s1'', business_uid_cfg = ''cafe1'', menu_id_cfg = ''m1'',
           user_id_cfg = None\<rparr>"
  have a: "talk_with_agent (demo_collab []) demo_registry demo_message = Inr (demo_stream [])"
    by (rule demo_talk)
  have b: "get_status demo_registry ''s1'' = Some IDLE" by (simp add: demo_defs gen_defs)
  have m: "session_id demo_message = ''s1''" by (simp add: demo_defs)
  have c: "get_status (agent_registry (gen_step (demo_collab []) (demo_stream []))) ''s1''
             \<noteq> get_status (agent_registry (demo_stream [])) ''s1''"
    by (simp add: demo_defs gen_defs)
  have d: "get_status (snd (agent_interrupt (agent_registry (demo_stream [])) ''s1'')) ''s1''
             \<noteq> get_status (agent_registry (demo_stream [])) ''s1''"
    by (simp add: demo_defs gen_defs)
  have e: "get_status (fst (agent_create (demo_collab []) demo_db
                (agent_registry (demo_stream [])) ?cfg)) ''s1''
             \<noteq> get_status (agent_registry (demo_stream [])) ''s1''"
    by (simp add: agent_create_def get_one_menu_def get_cafe_def demo_db_def demo_menu_def
        demo_defs gen_defs)
  have f: "demo_registry ''s5'' = None" by (simp add: demo_defs)
  note T1 = status_transitions[where C = "demo_collab []" and reg = demo_registry
      and m = demo_message and s = "demo_stream []" and t = "demo_stream []"
      and j = "''s1''" and i = "''s1''" and sid = "''s5''"]
  note T2 = status_transitions[where C = "demo_collab []"
      and reg = "agent_registry (demo_stream [])" and d = demo_db and config = ?cfg
      and m = demo_message and s = "demo_stream []" and t = "demo_stream []"
      and j = "''s1''" and i = "''s1''"]
  from T1 a m have talk: "get_status (agent_registry (demo_stream [])) ''s1'' = Some TALKING"
    by metis
  from T1 c have gen:
    "get_status (agent_registry (gen_step (demo_collab []) (demo_stream []))) ''s1'' = Some IDLE"
    "pc (gen_step (demo_collab []) (demo_stream [])) = Done"
    by blast+
  from T2 d have intr:
    "get_status (snd (agent_interrupt (agent_registry (demo_stream [])) ''s1'')) ''s1'' = Some IDLE"
    by blast
  from T2 e have cr:
    "snd (agent_create (demo_collab []) demo_db (agent_registry (demo_stream [])) ?cfg)
       = ''success''"
    by blast
  from T1 f have "get_status (agent_reservation demo_registry ''s5'') ''s1''
      = get_status demo_registry ''s1''"
    by blast
  with b have res: "get_status (agent_reservation demo_registry ''s5'') ''s1'' = Some IDLE"
    by simp
  from a b talk gen intr cr f res show ?thesis by simp
qed

text \<open>
  C5 as stated fails: \<^verbatim>\<open>agent_create\<close> takes the session id from its caller and
  stores the new agent without looking at the registry. Called for a session whose
  stream is open and whose status is \<open>TALKING\<close>, it succeeds, and the status the
  registry holds for the session is that of the new agent afterwards, \<open>IDLE\<close> (the
  initial status): a transition made neither by the streaming loop nor by
  \<^verbatim>\<open>agent_interrupt\<close>.
\<close>

theorem agent_create_replaces_talking_session:
  "get_status (agent_registry (demo_stream [''a''])) ''s1'' = Some TALKING \<and>
   snd (agent_create (demo_collab [''a'']) demo_db (agent_registry (demo_stream [''a'']))
          \<lparr>session_id_cfg = ''s1'', business_uid_cfg = ''cafe1'', menu_id_cfg = ''m1'',
           user_id_cfg = None\<rparr>) = ''success'' \<and>
   get_status (fst (agent_create (demo_collab [''a'']) demo_db (agent_registry (demo_stream [''a'']))
          \<lparr>session_id_cfg = ''s1'', business_uid_cfg = ''cafe1'', menu_id_cfg = ''m1'',
           user_id_cfg = None\<rparr>)) ''s1'' = Some IDLE"
  by (simp add: agent_create_def get_one_menu_def get_cafe_def demo_db_def demo_menu_def
      demo_defs gen_defs)


section \<open>The menu helpers\<close>

text \<open>
  C9, as the code has it. When \<^verbatim>\<open>get_menu_list\<close> returns a non-empty list and every
  menu of the group in it has a sequence number (else the sort raises, see below),
  \<^verbatim>\<open>collate_text\<close> returns with the success flag \<open>True\<close>, whatever
  \<^verbatim>\<open>update_menu_field\<close> answered: a failed update only makes the count 0 and the
  primary menu id empty, and the endpoint \<^verbatim>\<open>menus_collate_images\<close> answers
  \<open>success\<close>.
\<close>

theorem collate_text_success_flag:
  assumes "get_menu_list d uid True \<noteq> []"
    and "\<not> list_ex (\<lambda>x. sequence_number (collection x) = None)
             (filter (in_group gid) (get_menu_list d uid True))"
  shows "let grp = filter (in_group gid) (get_menu_list d uid True);
             sorted_menus = sort_key (\<lambda>x. the (sequence_number (collection x))) grp;
             primary = (case sorted_menus of [] \<Rightarrow> [] | m # _ \<Rightarrow> menu_id m);
             upd = update_menu_field d uid primary (concat (map menu_text sorted_menus));
             update_ok = fst (snd upd)
         in collate_text d uid gid
              = Inr (fst upd, True, snd (snd upd),
                     if update_ok then length grp else 0,
                     if update_ok then primary else [])
          \<and> menus_collate_images d uid gid
              = Inr (fst upd, \<lparr>resp_status = ''success'', resp_message = snd (snd upd),
                               resp_primary_menu_id = if update_ok then primary else []\<rparr>)"
  using collate_text_returns[OF assms]
  by (simp add: menus_collate_images_def Let_def)

theorem collate_text_success_flag_witness:
  "get_menu_list demo_db ''cafe1'' True \<noteq> [] \<and>
   fst (snd (update_menu_field demo_db ''cafe1'' [] [])) = False \<and>
   collate_text demo_db ''cafe1'' ''nogroup''
     = Inr (demo_db, True, update_failed_msg [] ''cafe1'', 0, []) \<and>
   menus_collate_images demo_db ''cafe1'' ''nogroup''
     = Inr (demo_db, \<lparr>resp_status = ''success'', resp_message = update_failed_msg [] ''cafe1'',
                      resp_primary_menu_id = []\<rparr>)"
proof -
  have h1: "get_menu_list demo_db ''cafe1'' True \<noteq> []"
    by (simp add: get_menu_list_def get_cafe_def demo_db_def demo_menu_def
        robust_filter_display_def)
  have g: "filter (in_group ''nogroup'') (get_menu_list demo_db ''cafe1'' True) = []"
    by (simp add: get_menu_list_def get_cafe_def demo_db_def demo_menu_def
        robust_filter_display_def in_group_def)
  have h2: "\<not> list_ex (\<lambda>x. sequence_number (collection x) = None)
             (filter (in_group ''nogroup'') (get_menu_list demo_db ''cafe1'' True))"
    using g by simp
  have u: "update_menu_field demo_db ''cafe1'' [] []
             = (demo_db, False, update_failed_msg [] ''cafe1'')"
    by (simp add: update_menu_field_def get_cafe_def demo_db_def demo_menu_def)
  from collate_text_success_flag[OF h1 h2] g u h1 show ?thesis
    by (simp add: Let_def)
qed

text \<open>
  C9 as stated fails where a menu of the group has no sequence number: the list of
  \<^verbatim>\<open>get_menu_list\<close> is not empty, and \<^verbatim>\<open>collate_text\<close> raises \<open>KeyError\<close> in
  the sort instead of returning a flag; so does the endpoint.
\<close>

theorem collate_text_raises_without_sequence_number:
  "get_menu_list demo_db ''cafe3'' True \<noteq> [] \<and>
   collate_text demo_db ''cafe3'' ''group-0003-long'' = Inl (KeyError ''sequence_number'') \<and>
   menus_collate_images demo_db ''cafe3'' ''group-0003-long''
     = Inl (KeyError ''sequence_number'')"
  by (simp add: menus_collate_images_def collate_text_def get_menu_list_def get_cafe_def
      demo_db_def demo_menu_def robust_filter_display_def in_group_def)

text \<open>
  C10. For a business whose cafe document has an empty list of menus,
  \<^verbatim>\<open>count_menus_in_collection\<close> with a group id of more than ten characters does not
  return 0: it reads the local \<^verbatim>\<open>menus\<close>, which was never assigned, and raises
  \<open>UnboundLocalError\<close> (a \<open>NameError\<close>).
\<close>

theorem count_menus_unbound_local:
  assumes "get_cafe d uid None = Some cafe"
    and "menus cafe = []"
    and "length gid > 10"
  shows "count_menus_in_collection d uid gid = Inl (UnboundLocalError ''menus'')"
  using assms by (auto simp: count_menus_in_collection_def)

theorem count_menus_unbound_local_witness:
  "count_menus_in_collection demo_db ''cafe2'' ''group-0003-long''
     = Inl (UnboundLocalError ''menus'')"
  by (rule count_menus_unbound_local [where cafe = "\<lparr>business_uid = ''cafe2'', menus = []\<rparr>"])
     (simp_all add: get_cafe_def demo_db_def demo_menu_def)

end
